theory Spec2Isabelle
  imports Complex_Main
begin

section \<open>Configuration (src/config.py)\<close>

text \<open>
  The process environment read by \<^verbatim>\<open>os.getenv\<close>: a variable is either unset
  (\<open>None\<close>) or set to a string, possibly the empty one.
\<close>

type_synonym environ = "string \<Rightarrow> string option"

text \<open>
  Python truthiness of the value \<^verbatim>\<open>os.getenv(var_name)\<close>: \<^verbatim>\<open>None\<close> and the empty string
  are falsy, every other string is truthy.
\<close>

definition truthy :: "string option \<Rightarrow> bool" where
  "truthy v = (case v of None \<Rightarrow> False | Some s \<Rightarrow> s \<noteq> [])"

definition required_vars :: "(string \<times> string) list" where
  "required_vars =
     [(''AZURE_OPENAI_ENDPOINT'', ''Azure OpenAI endpoint URL''),
      (''AZURE_OPENAI_EMBEDDING_DEPLOYMENT'', ''Azure OpenAI embedding model deployment name''),
      (''AZURE_OPENAI_CHAT_DEPLOYMENT'', ''Azure OpenAI chat model deployment name''),
      (''AZURE_SEARCH_ENDPOINT'', ''Azure AI Search endpoint URL''),
      (''AZURE_SEARCH_API_KEY'', ''Azure AI Search API key'')]"

text \<open>The f-string \<^verbatim>\<open>f"Missing {var_name}: {description}"\<close>.\<close>

definition missing_message :: "string \<times> string \<Rightarrow> string" where
  "missing_message vd = ''Missing '' @ fst vd @ '': '' @ snd vd"

text \<open>
  The loop of \<^verbatim>\<open>validate_config\<close> over \<^verbatim>\<open>required_vars\<close>, with the list
  \<^verbatim>\<open>errors\<close> it appends to as an accumulator.
\<close>

fun validate_loop :: "environ \<Rightarrow> (string \<times> string) list \<Rightarrow> string list \<Rightarrow> string list" where
  "validate_loop env [] errors = errors"
| "validate_loop env ((var_name, description) # rest) errors =
     validate_loop env rest
       (if \<not> truthy (env var_name)
        then errors @ [missing_message (var_name, description)]
        else errors)"

definition validate_config :: "environ \<Rightarrow> string list" where
  "validate_config env = validate_loop env required_vars []"

text \<open>
  The two callers, \<^verbatim>\<open>load_pipeline\<close> of app.py and \<^verbatim>\<open>main\<close> of
  scripts/index_document.py, both start with \<^verbatim>\<open>errors = validate_config()\<close> and stop
  (\<^verbatim>\<open>return None\<close>, \<^verbatim>\<open>sys.exit(1)\<close>) when the list is not empty, before any
  client is constructed. \<open>startup_check\<close> is that step: \<open>Blocked\<close> carries the whole list that is
  shown to the user, \<open>Proceed\<close> hands over to the rest of the caller.
\<close>

datatype 'a startup = Blocked "string list" | Proceed 'a

definition startup_check :: "environ \<Rightarrow> 'a \<Rightarrow> 'a startup" where
  "startup_check env rest =
     (let errors = validate_config env
      in if errors \<noteq> [] then Blocked errors else Proceed rest)"

section \<open>Python values: exceptions and strings\<close>

text \<open>
  Exceptions are values. \<open>ServiceError\<close> is whatever an outbound call raises (network,
  rate limit, authentication: the code does not tell them apart), \<open>RetryError\<close> is what
  tenacity raises around the last failure when it gives up, \<open>IndexError\<close> and
  \<open>ValueError\<close> are Python's own (an index into an empty list, \<^verbatim>\<open>range\<close> with
  step 0).
\<close>

datatype error = ServiceError string | RetryError error | IndexError | ValueError

text \<open>
  \<^verbatim>\<open>str.isspace\<close> on the characters below 256, and \<^verbatim>\<open>str.strip()\<close>.
\<close>

definition isspace :: "char \<Rightarrow> bool" where
  "isspace c = (of_char c \<in> {9, 10, 11, 12, 13, 28, 29, 30, 31, 32, 133, 160 :: nat})"

definition strip :: "string \<Rightarrow> string" where
  "strip s = rev (dropWhile isspace (rev (dropWhile isspace s)))"

text \<open>\<^verbatim>\<open>sep.join(parts)\<close>.\<close>

fun join :: "string \<Rightarrow> string list \<Rightarrow> string" where
  "join sep [] = []"
| "join sep [x] = x"
| "join sep (x # y # ys) = x @ sep @ join sep (y # ys)"

text \<open>
  \<^verbatim>\<open>s.find(sub, start)\<close> for \<open>start \<ge> 0\<close>: the lowest index from \<open>start\<close> on at which
  \<open>sub\<close> occurs in \<open>s\<close>, and \<open>None\<close> for \<^verbatim>\<open>-1\<close>.
\<close>

definition str_find :: "string \<Rightarrow> string \<Rightarrow> nat \<Rightarrow> nat option" where
  "str_find s sub start =
     List.find (\<lambda>k. take (length sub) (drop k s) = sub) [start ..< Suc (length s) - length sub]"

text \<open>Python's \<^verbatim>\<open>str\<close> of a non-negative int, and the format \<^verbatim>\<open>{i:04d}\<close>.\<close>

fun str_nat :: "nat \<Rightarrow> string" where
  "str_nat n =
     (if n < 10 then [char_of (48 + n)]
      else str_nat (n div 10) @ [char_of (48 + n mod 10)])"

declare str_nat.simps [simp del]

definition format_04d :: "nat \<Rightarrow> string" where
  "format_04d n = replicate (4 - length (str_nat n)) CHR ''0'' @ str_nat n"

text \<open>
  Python floats are IEEE 754 doubles. A finite double is given by the real number it
  denotes exactly; the two infinities and NaN are values of their own. \<open>float_gt\<close> is
  the comparison \<^verbatim>\<open>x > y\<close>: false whenever an operand is NaN, the order of the extended
  reals otherwise.
\<close>

datatype pyfloat = Finite real | PosInf | NegInf | NaN

fun float_gt :: "pyfloat \<Rightarrow> pyfloat \<Rightarrow> bool" where
  "float_gt NaN y = False"
| "float_gt x NaN = False"
| "float_gt (Finite a) (Finite b) = (a > b)"
| "float_gt PosInf PosInf = False"
| "float_gt PosInf y = True"
| "float_gt x PosInf = False"
| "float_gt NegInf y = False"
| "float_gt x NegInf = True"

text \<open>
  The doubles the decimal literals of the source and of the claims denote: a literal is
  read as the double nearest to it, \<open>k / 2 ^ e\<close> with a 53-bit \<open>k\<close>. None of these
  decimals is itself a double: \<^verbatim>\<open>0.03\<close> is read slightly below 3/100, \<^verbatim>\<open>0.02\<close>
  slightly above 2/100.
\<close>

definition literal_0_03 :: pyfloat where
  "literal_0_03 = Finite (8646911284551352 / 2 ^ 58)"

definition literal_0_02 :: pyfloat where
  "literal_0_02 = Finite (5764607523034235 / 2 ^ 58)"

definition literal_0_05 :: pyfloat where
  "literal_0_05 = Finite (7205759403792794 / 2 ^ 57)"

definition literal_0_04 :: pyfloat where
  "literal_0_04 = Finite (5764607523034235 / 2 ^ 57)"

definition literal_0_025 :: pyfloat where
  "literal_0_025 = Finite (7205759403792794 / 2 ^ 58)"

definition literal_0_01 :: pyfloat where
  "literal_0_01 = Finite (5764607523034235 / 2 ^ 59)"

section \<open>The text splitter\<close>

text \<open>
  Modelled from the spec: the splitter of section 4.1, step 2, which cuts the buffer by
  "a recursive separator-priority strategy", preferring paragraph breaks, then line
  breaks, then sentence-ending periods, then spaces, then hard character cuts, and
  merges the pieces into segments with a configured overlap. src/pdf_processor.py takes
  it from the library langchain_text_splitters (\<^verbatim>\<open>RecursiveCharacterTextSplitter\<close>), whose
  code is not among the sources; the definitions of this section follow that class as
  the constructor configures it: \<^verbatim>\<open>length_function=len\<close>, the separators given, and
  the defaults \<^verbatim>\<open>keep_separator=True\<close>, \<^verbatim>\<open>is_separator_regex=False\<close>,
  \<^verbatim>\<open>strip_whitespace=True\<close>.
\<close>

text \<open>
  Modelled from the spec: the texts between the occurrences of a non-empty literal
  separator, found from left to right without overlap (what \<^verbatim>\<open>re.split\<close> returns
  between the separators).
\<close>

function pieces :: "string \<Rightarrow> string \<Rightarrow> string list" where
  "pieces sep txt =
     (if sep = [] \<or> txt = [] then [txt]
      else if take (length sep) txt = sep then [] # pieces sep (drop (length sep) txt)
      else (case pieces sep (tl txt) of
              [] \<Rightarrow> [[hd txt]]
            | p # ps \<Rightarrow> (hd txt # p) # ps))"
  by pat_completeness auto
termination
  by (relation "measure (\<lambda>(sep, txt). length txt)") auto

declare pieces.simps [simp del]

text \<open>
  Modelled from the spec: the pieces a text is cut into at one separator
  (\<^verbatim>\<open>_split_text_with_regex\<close> with \<^verbatim>\<open>keep_separator=True\<close>), each separator kept
  at the start of the piece that follows it, empty pieces dropped; the empty separator
  cuts between all characters.
\<close>

definition split_text_with_regex :: "string \<Rightarrow> string \<Rightarrow> string list" where
  "split_text_with_regex txt separator =
     filter (\<lambda>s. s \<noteq> [])
       (if separator \<noteq> [] then
          (case pieces separator txt of
             [] \<Rightarrow> []
           | t0 # ts \<Rightarrow> t0 # map (\<lambda>t. separator @ t) ts)
        else map (\<lambda>c. [c]) txt)"

text \<open>
  Modelled from the spec: the segment made of the pieces collected so far
  (\<^verbatim>\<open>_join_docs\<close>), stripped of surrounding whitespace; no segment when nothing is
  left.
\<close>

definition join_docs :: "string list \<Rightarrow> string \<Rightarrow> string option" where
  "join_docs docs separator =
     (let text = strip (join separator docs) in if text = [] then None else Some text)"

text \<open>
  Modelled from the spec: the overlap carried into the next segment (the
  \<^verbatim>\<open>while\<close> loop of \<^verbatim>\<open>_merge_splits\<close>). After a segment is emitted, pieces are
  dropped from the front of \<open>current_doc\<close> while their total exceeds
  the overlap, or while the next piece would not fit; \<^verbatim>\<open>current_doc[0]\<close> on an empty
  list is an \<open>IndexError\<close>.
\<close>

function pop_while ::
  "int \<Rightarrow> int \<Rightarrow> int \<Rightarrow> int \<Rightarrow> string list \<Rightarrow> int \<Rightarrow> error + string list \<times> int" where
  "pop_while chunk_size chunk_overlap separator_len len current_doc total' =
     (if total' > chunk_overlap
         \<or> (total' + len + (if length current_doc > 0 then separator_len else 0) > chunk_size
             \<and> total' > 0)
      then
        (case current_doc of
           [] \<Rightarrow> Inl IndexError
         | d0 # ds \<Rightarrow>
             pop_while chunk_size chunk_overlap separator_len len ds
               (total' - (int (length d0)
                          + (if length current_doc > 1 then separator_len else 0))))
      else Inr (current_doc, total'))"
  by pat_completeness auto
termination
  by (relation "measure (\<lambda>(cs, ov, sl, len, current_doc, t). length current_doc)") auto

declare pop_while.simps [simp del]

text \<open>
  Modelled from the spec: merging small pieces into segments (\<^verbatim>\<open>_merge_splits\<close>,
  its \<^verbatim>\<open>for\<close> loop with the variables \<open>docs\<close>, \<open>current_doc\<close> and \<open>total\<close>). A
  piece that would push the running total over the chunk size first emits the pieces
  collected so far.
\<close>

fun merge_loop ::
  "int \<Rightarrow> int \<Rightarrow> string \<Rightarrow> string list \<Rightarrow> string list \<Rightarrow> string list \<Rightarrow> int
     \<Rightarrow> error + string list \<times> string list \<times> int" where
  "merge_loop chunk_size chunk_overlap separator [] docs current_doc total' =
     Inr (docs, current_doc, total')"
| "merge_loop chunk_size chunk_overlap separator (d # rest) docs current_doc total' =
     (let separator_len = int (length separator);
          len = int (length d)
      in
        (case
           (if total' + len + (if length current_doc > 0 then separator_len else 0) > chunk_size
               \<and> length current_doc > 0
            then
              (case pop_while chunk_size chunk_overlap separator_len len current_doc total' of
                 Inl e \<Rightarrow> Inl e
               | Inr (current_doc', total'') \<Rightarrow>
                   Inr ((case join_docs current_doc separator of
                           None \<Rightarrow> docs
                         | Some doc \<Rightarrow> docs @ [doc]),
                        current_doc', total''))
            else Inr (docs, current_doc, total'))
         of
           Inl e \<Rightarrow> Inl e
         | Inr (docs', current_doc', total'') \<Rightarrow>
             merge_loop chunk_size chunk_overlap separator rest docs' (current_doc' @ [d])
               (total'' + len
                + (if length (current_doc' @ [d]) > 1 then separator_len else 0))))"

definition merge_splits :: "int \<Rightarrow> int \<Rightarrow> string list \<Rightarrow> string \<Rightarrow> error + string list" where
  "merge_splits chunk_size chunk_overlap splits separator =
     (case merge_loop chunk_size chunk_overlap separator splits [] [] 0 of
        Inl e \<Rightarrow> Inl e
      | Inr (docs, current_doc, total') \<Rightarrow>
          Inr (case join_docs current_doc separator of
                 None \<Rightarrow> docs
               | Some doc \<Rightarrow> docs @ [doc]))"

text \<open>
  Modelled from the spec: the separator priority (the first loop of
  \<^verbatim>\<open>_split_text\<close>). The first separator of the list that
  is empty or occurs in the text is used, and the separators after it are left for the
  pieces that are still too long; when none qualifies, it is the last separator.
\<close>

fun pick_separator :: "string list \<Rightarrow> string \<Rightarrow> (string \<times> string list) option" where
  "pick_separator [] txt = None"
| "pick_separator (s # rest) txt =
     (if s = [] then Some ([], [])
      else if str_find txt s 0 \<noteq> None then Some (s, rest)
      else pick_separator rest txt)"

definition choose_separator :: "string list \<Rightarrow> string \<Rightarrow> string \<times> string list" where
  "choose_separator separators txt =
     (case pick_separator separators txt of
        None \<Rightarrow> (last separators, [])
      | Some r \<Rightarrow> r)"

text \<open>
  Modelled from the spec: the loop over the pieces (the second loop of
  \<^verbatim>\<open>_split_text\<close>, with \<open>_good_splits\<close> and \<open>final_chunks\<close>). Pieces shorter than the chunk size
  are collected and merged; a piece that is not is handed to \<open>longer\<close>, which cuts it
  with the remaining separators.
\<close>

fun splits_loop ::
  "int \<Rightarrow> int \<Rightarrow> string \<Rightarrow> (string \<Rightarrow> error + string list) \<Rightarrow> string list \<Rightarrow> string list
     \<Rightarrow> string list \<Rightarrow> error + string list" where
  "splits_loop chunk_size chunk_overlap separator longer [] good_splits final_chunks =
     (if good_splits \<noteq> [] then
        (case merge_splits chunk_size chunk_overlap good_splits separator of
           Inl e \<Rightarrow> Inl e
         | Inr merged_text \<Rightarrow> Inr (final_chunks @ merged_text))
      else Inr final_chunks)"
| "splits_loop chunk_size chunk_overlap separator longer (s # rest) good_splits final_chunks =
     (if int (length s) < chunk_size then
        splits_loop chunk_size chunk_overlap separator longer rest (good_splits @ [s]) final_chunks
      else
        (case (if good_splits \<noteq> []
               then merge_splits chunk_size chunk_overlap good_splits separator
               else Inr []) of
           Inl e \<Rightarrow> Inl e
         | Inr merged_text \<Rightarrow>
             (case longer s of
                Inl e \<Rightarrow> Inl e
              | Inr other_info \<Rightarrow>
                  splits_loop chunk_size chunk_overlap separator longer rest []
                    (final_chunks @ merged_text @ other_info))))"

lemma pick_separator_shorter:
  "pick_separator separators txt = Some (s, rest) \<Longrightarrow> length rest < length separators"
  by (induction separators) (auto split: if_splits)

lemma choose_separator_shorter:
  "separators \<noteq> [] \<Longrightarrow> length (snd (choose_separator separators txt)) < length separators"
  by (cases "pick_separator separators txt")
     (auto simp: choose_separator_def dest: pick_separator_shorter)

text \<open>
  Modelled from the spec: the recursive splitter (\<^verbatim>\<open>_split_text\<close>);
  \<^verbatim>\<open>separators[-1]\<close> on an empty list is an \<open>IndexError\<close>. The pieces are merged with the empty
  separator, since the separators are kept in the pieces.
\<close>

function split_text_rec :: "int \<Rightarrow> int \<Rightarrow> string list \<Rightarrow> string \<Rightarrow> error + string list" where
  "split_text_rec chunk_size chunk_overlap separators txt =
     (if separators = [] then Inl IndexError
      else
        (let separator = fst (choose_separator separators txt);
             new_separators = snd (choose_separator separators txt);
             splits = split_text_with_regex txt separator
         in splits_loop chunk_size chunk_overlap []
              (\<lambda>s. if new_separators = [] then Inr [s]
                   else split_text_rec chunk_size chunk_overlap new_separators s)
              splits [] []))"
  by pat_completeness auto
termination
  by (relation "measure (\<lambda>(cs, ov, separators, txt). length separators)")
     (auto simp: choose_separator_shorter)

declare split_text_rec.simps [simp del]

text \<open>
  Modelled from the spec: the constructor of the splitter, which refuses a chunk size
  that is not positive, a negative overlap and an overlap larger than the chunk size
  with a \<open>ValueError\<close>, replaces an empty separator list by its default, and otherwise
  returns the object whose method \<^verbatim>\<open>split_text\<close> is the recursive splitter on the
  separators given.
\<close>

definition RecursiveCharacterTextSplitter ::
  "int \<Rightarrow> int \<Rightarrow> string list \<Rightarrow> error + (string \<Rightarrow> error + string list)" where
  "RecursiveCharacterTextSplitter chunk_size chunk_overlap separators =
     (if chunk_size \<le> 0 then Inl ValueError
      else if chunk_overlap < 0 then Inl ValueError
      else if chunk_overlap > chunk_size then Inl ValueError
      else Inr (split_text_rec chunk_size chunk_overlap
                  (if separators = [] then [[CHR 0x0A, CHR 0x0A], [CHR 0x0A], '' '', []]
                   else separators)))"

section \<open>PDF processor (src/pdf_processor.py)\<close>

text \<open>
  Offsets into the text buffer, page numbers and chunk indices are lengths and
  \<^verbatim>\<open>enumerate\<close> counters, never negative: they are natural numbers. The one negative
  value of the source, the \<^verbatim>\<open>-1\<close> of \<^verbatim>\<open>str.find\<close>, is \<open>None\<close>.
\<close>

record DocumentChunk =
  chunk_id :: string
  content :: string
  page_numbers :: "nat list"
  section_title :: "string option"
  chunk_index :: nat
  total_chunks :: nat

text \<open>
  The attributes \<^verbatim>\<open>__init__\<close> sets. \<open>text_splitter\<close> is the method
  \<^verbatim>\<open>split_text\<close> of the splitter object the constructor builds; like every call it
  returns or raises.
\<close>

record PDFProcessor =
  chunk_size :: int
  chunk_overlap :: int
  text_splitter :: "string \<Rightarrow> error + string list"

text \<open>
  \<^verbatim>\<open>PDFProcessor(chunk_size, chunk_overlap)\<close>: the constructor builds the splitter with
  \<^verbatim>\<open>separators=["\n\n", "\n", ". ", " ", ""]\<close>; an exception of the splitter's
  constructor is one of this constructor.
\<close>

definition PDFProcessor_init :: "int \<Rightarrow> int \<Rightarrow> error + PDFProcessor" where
  "PDFProcessor_init chunk_size' chunk_overlap' =
     (case RecursiveCharacterTextSplitter chunk_size' chunk_overlap'
             [[CHR 0x0A, CHR 0x0A], [CHR 0x0A], ''. '', '' '', []] of
        Inl e \<Rightarrow> Inl e
      | Inr splitter \<Rightarrow>
          Inr \<lparr>chunk_size = chunk_size', chunk_overlap = chunk_overlap',
               text_splitter = splitter\<rparr>)"

text \<open>
  A PDF file, as the two extraction libraries read it: for every page, what
  \<^verbatim>\<open>page.extract_text()\<close> returns (a string or \<^verbatim>\<open>None\<close>) under pypdf and under
  pdfplumber.
\<close>

record pdf =
  pypdf_pages :: "string option list"
  pdfplumber_pages :: "string option list"

text \<open>
  The loop shared by \<^verbatim>\<open>extract_text_pypdf\<close> and \<^verbatim>\<open>extract_text_pdfplumber\<close>:
  \<^verbatim>\<open>pages.append((i + 1, (page.extract_text() or "").strip()))\<close>.
\<close>

definition extract_pages :: "string option list \<Rightarrow> (nat \<times> string) list" where
  "extract_pages raw =
     map (\<lambda>(i, page). (i + 1, strip (case page of None \<Rightarrow> [] | Some t \<Rightarrow> t)))
       (enumerate 0 raw)"

definition extract_text_pypdf :: "pdf \<Rightarrow> (nat \<times> string) list" where
  "extract_text_pypdf f = extract_pages (pypdf_pages f)"

definition extract_text_pdfplumber :: "pdf \<Rightarrow> (nat \<times> string) list" where
  "extract_text_pdfplumber f = extract_pages (pdfplumber_pages f)"

definition extract_with_fallback :: "pdf \<Rightarrow> (nat \<times> string) list" where
  "extract_with_fallback f =
     (let pages = extract_text_pypdf f;
          total_chars = sum_list (map (\<lambda>(n, t). length t) pages)
      in if total_chars < 1000 then extract_text_pdfplumber f else pages)"

text \<open>
  The first loop of \<^verbatim>\<open>chunk_document\<close>: the buffer \<^verbatim>\<open>full_text\<close> and the table
  \<^verbatim>\<open>page_boundaries\<close> of triples \<^verbatim>\<open>(start_char, end_char, page_num)\<close>.
\<close>

fun page_loop ::
  "(nat \<times> string) list \<Rightarrow> string \<Rightarrow> (nat \<times> nat \<times> nat) list
     \<Rightarrow> string \<times> (nat \<times> nat \<times> nat) list" where
  "page_loop [] full_text page_boundaries = (full_text, page_boundaries)"
| "page_loop ((page_num, txt) # rest) full_text page_boundaries =
     (if txt = [] then page_loop rest full_text page_boundaries
      else
        (let start = length full_text;
             full_text' = full_text @ txt @ [CHR 0x0A, CHR 0x0A];
             end_char = length full_text'
         in page_loop rest full_text' (page_boundaries @ [(start, end_char, page_num)])))"

text \<open>
  The inner loop over \<^verbatim>\<open>page_boundaries\<close>: the pages whose range meets the span
  \<^verbatim>\<open>[chunk_start, chunk_end)\<close>, appended in table order.
\<close>

fun spanned_pages :: "(nat \<times> nat \<times> nat) list \<Rightarrow> nat \<Rightarrow> nat \<Rightarrow> nat list" where
  "spanned_pages [] chunk_start chunk_end = []"
| "spanned_pages ((start, end_char, page_num) # rest) chunk_start chunk_end =
     (if chunk_start < end_char \<and> chunk_end > start
      then page_num # spanned_pages rest chunk_start chunk_end
      else spanned_pages rest chunk_start chunk_end)"

text \<open>
  The second loop of \<^verbatim>\<open>chunk_document\<close>, over \<^verbatim>\<open>enumerate(chunks)\<close> with the cursor
  \<^verbatim>\<open>char_pos\<close>. Every chunk it yields is paired here with the span
  \<^verbatim>\<open>(chunk_start, chunk_end)\<close> the loop computed for it, so that statements about page
  numbers can name the span.
\<close>

fun chunk_loop ::
  "string \<Rightarrow> (nat \<times> nat \<times> nat) list \<Rightarrow> nat \<Rightarrow> nat \<Rightarrow> nat \<Rightarrow> string list
     \<Rightarrow> ((nat \<times> nat) \<times> DocumentChunk) list" where
  "chunk_loop full_text page_boundaries total_chunks' i char_pos [] = []"
| "chunk_loop full_text page_boundaries total_chunks' i char_pos (chunk_text # rest) =
     (let chunk_start = (case str_find full_text chunk_text char_pos of
                           None \<Rightarrow> char_pos
                         | Some k \<Rightarrow> k);
          chunk_end = chunk_start + length chunk_text;
          chunk_pages = spanned_pages page_boundaries chunk_start chunk_end
      in ((chunk_start, chunk_end),
          \<lparr>chunk_id = ''chunk_'' @ format_04d i,
           content = chunk_text,
           page_numbers = (if chunk_pages = [] then [1] else chunk_pages),
           section_title = None,
           chunk_index = i,
           total_chunks = total_chunks'\<rparr>)
         # chunk_loop full_text page_boundaries total_chunks' (i + 1) (chunk_start + 1) rest)"

text \<open>The buffer and the page boundary table \<^verbatim>\<open>chunk_document\<close> builds for a file.\<close>

definition full_text_of :: "pdf \<Rightarrow> string" where
  "full_text_of f = fst (page_loop (extract_with_fallback f) [] [])"

definition page_boundaries_of :: "pdf \<Rightarrow> (nat \<times> nat \<times> nat) list" where
  "page_boundaries_of f = snd (page_loop (extract_with_fallback f) [] [])"

definition located_chunks ::
  "PDFProcessor \<Rightarrow> pdf \<Rightarrow> error + ((nat \<times> nat) \<times> DocumentChunk) list" where
  "located_chunks P f =
     (case text_splitter P (full_text_of f) of
        Inl e \<Rightarrow> Inl e
      | Inr chunks \<Rightarrow>
          (let total_chunks' = length chunks
           in Inr (chunk_loop (full_text_of f) (page_boundaries_of f) total_chunks' 0 0 chunks)))"

text \<open>
  \<^verbatim>\<open>chunk_document\<close> is a generator; its callers take \<^verbatim>\<open>list(...)\<close> of it, which is
  the list of chunks in the order they are yielded.
\<close>

definition chunk_document :: "PDFProcessor \<Rightarrow> pdf \<Rightarrow> error + DocumentChunk list" where
  "chunk_document P f =
     (case located_chunks P f of
        Inl e \<Rightarrow> Inl e
      | Inr located \<Rightarrow> Inr (map snd located))"

section \<open>External services and their call trace\<close>

text \<open>
  A ranked match as \<^verbatim>\<open>hybrid_search\<close> returns it (a dict with these five keys). The
  score is a Python float. A section title is a string or \<^verbatim>\<open>None\<close>.
\<close>

record match =
  m_chunk_id :: string
  m_content :: string
  m_page_numbers :: "nat list"
  m_section_title :: "string option"
  score :: pyfloat

text \<open>
  A document of the search index, as \<^verbatim>\<open>index_chunks\<close> builds it (a dict with these
  eight keys).
\<close>

record index_document =
  d_chunk_id :: string
  d_content :: string
  d_content_vector :: "real list"
  d_page_numbers :: "nat list"
  d_section_title :: string
  d_chunk_index :: nat
  d_document_name :: string
  d_indexed_at :: string

text \<open>
  Every outbound call is recorded: the model appends an event to the trace whenever the
  source calls a service or sleeps between retries.
\<close>

datatype event =
    EmbeddingsCreate "string list"
  | Sleep nat
  | Search string "real list" int
  | ChatCompletionsCreate string string
  | UploadDocuments "index_document list"

text \<open>
  The remote services, each a function of a service state \<open>'s\<close> (so that a call
  may fail once and succeed the next time) and of the request:
  \<^item> \<open>embeddings_create\<close>: \<^verbatim>\<open>client.embeddings.create(input=..., model=...)\<close>, returning
    the embeddings of \<^verbatim>\<open>response.data\<close> in order (a single string input is the
    one-element list);
  \<^item> \<open>search\<close>: \<^verbatim>\<open>search_client.search(search_text, vector_queries, select, top)\<close>,
    returning the hits in rank order;
  \<^item> \<open>chat_create\<close>: \<^verbatim>\<open>llm_client.chat.completions.create\<close> with the system and the
    user message, returning \<^verbatim>\<open>response.choices[0].message.content\<close>, which may be
    \<^verbatim>\<open>None\<close>;
  \<^item> \<open>upload_documents\<close>: \<^verbatim>\<open>search_client.upload_documents(batch)\<close>, which returns
    or raises.
\<close>

record 's services =
  embeddings_create :: "'s \<Rightarrow> string list \<Rightarrow> (error + real list list) \<times> 's"
  search :: "'s \<Rightarrow> string \<Rightarrow> real list \<Rightarrow> int \<Rightarrow> (error + match list) \<times> 's"
  chat_create :: "'s \<Rightarrow> string \<Rightarrow> string \<Rightarrow> (error + string option) \<times> 's"
  upload_documents :: "'s \<Rightarrow> index_document list \<Rightarrow> (error + unit) \<times> 's"

record 's world =
  svc :: 's
  trace :: "event list"

definition call_embeddings ::
  "'s services \<Rightarrow> string list \<Rightarrow> 's world \<Rightarrow> (error + real list list) \<times> 's world" where
  "call_embeddings sv inp w =
     (case embeddings_create sv (svc w) inp of
        (r, s') \<Rightarrow> (r, \<lparr>svc = s', trace = trace w @ [EmbeddingsCreate inp]\<rparr>))"

definition call_search ::
  "'s services \<Rightarrow> string \<Rightarrow> real list \<Rightarrow> int \<Rightarrow> 's world \<Rightarrow> (error + match list) \<times> 's world" where
  "call_search sv q v k w =
     (case search sv (svc w) q v k of
        (r, s') \<Rightarrow> (r, \<lparr>svc = s', trace = trace w @ [Search q v k]\<rparr>))"

definition call_chat ::
  "'s services \<Rightarrow> string \<Rightarrow> string \<Rightarrow> 's world \<Rightarrow> (error + string option) \<times> 's world" where
  "call_chat sv sys usr w =
     (case chat_create sv (svc w) sys usr of
        (r, s') \<Rightarrow> (r, \<lparr>svc = s', trace = trace w @ [ChatCompletionsCreate sys usr]\<rparr>))"

definition call_upload ::
  "'s services \<Rightarrow> index_document list \<Rightarrow> 's world \<Rightarrow> (error + unit) \<times> 's world" where
  "call_upload sv batch w =
     (case upload_documents sv (svc w) batch of
        (r, s') \<Rightarrow> (r, \<lparr>svc = s', trace = trace w @ [UploadDocuments batch]\<rparr>))"

definition sleep :: "nat \<Rightarrow> 's world \<Rightarrow> 's world" where
  "sleep secs w = w\<lparr>trace := trace w @ [Sleep secs]\<rparr>"

section \<open>Embeddings client (src/embeddings.py)\<close>

text \<open>
  tenacity's \<^verbatim>\<open>wait_exponential(multiplier, min, max)\<close> after the failed attempt number
  \<open>n\<close> (counted from 1): \<^verbatim>\<open>max(max(0, min), min(multiplier * 2 ** (n - 1), max))\<close>
  seconds.
\<close>

definition wait_exponential :: "nat \<Rightarrow> nat \<Rightarrow> nat \<Rightarrow> nat \<Rightarrow> nat" where
  "wait_exponential multiplier mn mx n = max (max 0 mn) (min (multiplier * 2 ^ (n - 1)) mx)"

text \<open>
  The decorator \<^verbatim>\<open>@retry(stop=stop_after_attempt(k), wait=...)\<close> around a call \<open>f\<close>:
  attempt \<open>n\<close> runs \<open>f\<close>; a result is returned; an exception ends the call with
  \<^verbatim>\<open>RetryError\<close> once \<open>n \<ge> k\<close>, and otherwise is followed by a sleep of \<open>wait n\<close> seconds
  and attempt \<open>n + 1\<close>.
\<close>

function retrying ::
  "nat \<Rightarrow> (nat \<Rightarrow> nat) \<Rightarrow> ('s world \<Rightarrow> (error + 'a) \<times> 's world) \<Rightarrow> nat \<Rightarrow> 's world
     \<Rightarrow> (error + 'a) \<times> 's world" where
  "retrying stop_after wait f n w =
     (case f w of
        (Inr v, w') \<Rightarrow> (Inr v, w')
      | (Inl e, w') \<Rightarrow>
          if n \<ge> stop_after then (Inl (RetryError e), w')
          else retrying stop_after wait f (n + 1) (sleep (wait n) w'))"
  by pat_completeness auto
termination
  by (relation "measure (\<lambda>(stop_after, wait, f, n, w). stop_after - n)") auto

declare retrying.simps [simp del]

text \<open>The body of \<^verbatim>\<open>get_embedding\<close>: one request, then \<^verbatim>\<open>response.data[0].embedding\<close>.\<close>

definition get_embedding_once ::
  "'s services \<Rightarrow> string \<Rightarrow> 's world \<Rightarrow> (error + real list) \<times> 's world" where
  "get_embedding_once sv txt w =
     (case call_embeddings sv [txt] w of
        (Inl e, w') \<Rightarrow> (Inl e, w')
      | (Inr [], w') \<Rightarrow> (Inl IndexError, w')
      | (Inr (d # ds), w') \<Rightarrow> (Inr d, w'))"

text \<open>
  \<^verbatim>\<open>get_embedding\<close> as decorated:
  \<^verbatim>\<open>@retry(stop=stop_after_attempt(3), wait=wait_exponential(multiplier=1, min=2, max=10))\<close>.
\<close>

definition get_embedding ::
  "'s services \<Rightarrow> string \<Rightarrow> 's world \<Rightarrow> (error + real list) \<times> 's world" where
  "get_embedding sv txt w =
     retrying 3 (wait_exponential 1 2 10) (get_embedding_once sv txt) 1 w"

text \<open>
  The loop \<^verbatim>\<open>for i in range(0, len(texts), batch_size)\<close> of
  \<^verbatim>\<open>get_embeddings_batch\<close> for a positive step: \<open>i\<close> is the loop variable,
  \<open>all_embeddings\<close> the list extended in every round. The method carries no
  \<^verbatim>\<open>@retry\<close>: an exception of a request leaves the loop and the method.
\<close>

function batch_loop ::
  "'s services \<Rightarrow> string list \<Rightarrow> nat \<Rightarrow> nat \<Rightarrow> real list list \<Rightarrow> 's world
     \<Rightarrow> (error + real list list) \<times> 's world" where
  "batch_loop sv texts batch_size i all_embeddings w =
     (if batch_size = 0 \<or> length texts \<le> i then (Inr all_embeddings, w)
      else
        (case call_embeddings sv (take batch_size (drop i texts)) w of
           (Inl e, w') \<Rightarrow> (Inl e, w')
         | (Inr batch_embeddings, w') \<Rightarrow>
             batch_loop sv texts batch_size (i + batch_size)
               (all_embeddings @ batch_embeddings) w'))"
  by pat_completeness auto
termination
  by (relation "measure (\<lambda>(sv, texts, batch_size, i, acc, w). length texts - i)") auto

declare batch_loop.simps [simp del]

text \<open>
  \<^verbatim>\<open>get_embeddings_batch(texts, batch_size)\<close>. \<^verbatim>\<open>batch_size\<close> is a Python int:
  \<^verbatim>\<open>range\<close> raises \<^verbatim>\<open>ValueError\<close> for step 0 and is empty for a negative
  step.
\<close>

definition get_embeddings_batch ::
  "'s services \<Rightarrow> string list \<Rightarrow> int \<Rightarrow> 's world \<Rightarrow> (error + real list list) \<times> 's world" where
  "get_embeddings_batch sv texts batch_size w =
     (if batch_size = 0 then (Inl ValueError, w)
      else if batch_size < 0 then (Inr [], w)
      else batch_loop sv texts (nat batch_size) 0 [] w)"

section \<open>Search service (src/search_client.py)\<close>

text \<open>
  The first loop of \<^verbatim>\<open>index_chunks\<close>, over \<^verbatim>\<open>zip(chunks, embeddings)\<close>;
  \<^verbatim>\<open>chunk.section_title or ""\<close> is the empty string for \<^verbatim>\<open>None\<close> and for the
  empty string. \<open>timestamp\<close> is \<^verbatim>\<open>datetime.now(timezone.utc).isoformat()\<close>, read once.
\<close>

definition build_documents ::
  "DocumentChunk list \<Rightarrow> real list list \<Rightarrow> string \<Rightarrow> string \<Rightarrow> index_document list" where
  "build_documents chunks embeddings document_name timestamp =
     map (\<lambda>(chunk, embedding).
            \<lparr>d_chunk_id = chunk_id chunk,
             d_content = content chunk,
             d_content_vector = embedding,
             d_page_numbers = page_numbers chunk,
             d_section_title = (case section_title chunk of
                                  None \<Rightarrow> []
                                | Some t \<Rightarrow> if t = [] then [] else t),
             d_chunk_index = chunk_index chunk,
             d_document_name = document_name,
             d_indexed_at = timestamp\<rparr>)
       (zip chunks embeddings)"

text \<open>
  The second loop, \<^verbatim>\<open>for i in range(0, len(documents), batch_size)\<close> with
  \<^verbatim>\<open>batch_size = 100\<close>; an exception of an upload leaves the method.
\<close>

function upload_loop ::
  "'s services \<Rightarrow> index_document list \<Rightarrow> nat \<Rightarrow> 's world \<Rightarrow> (error + unit) \<times> 's world" where
  "upload_loop sv documents i w =
     (if length documents \<le> i then (Inr (), w)
      else
        (case call_upload sv (take 100 (drop i documents)) w of
           (Inl e, w') \<Rightarrow> (Inl e, w')
         | (Inr u, w') \<Rightarrow> upload_loop sv documents (i + 100) w'))"
  by pat_completeness auto
termination
  by (relation "measure (\<lambda>(sv, documents, i, w). length documents - i)") auto

declare upload_loop.simps [simp del]

definition index_chunks ::
  "'s services \<Rightarrow> DocumentChunk list \<Rightarrow> real list list \<Rightarrow> string \<Rightarrow> string \<Rightarrow> 's world
     \<Rightarrow> (error + unit) \<times> 's world" where
  "index_chunks sv chunks embeddings document_name timestamp w =
     upload_loop sv (build_documents chunks embeddings document_name timestamp) 0 w"

text \<open>\<^verbatim>\<open>hybrid_search\<close>: the request, and one dict per hit.\<close>

definition hybrid_search ::
  "'s services \<Rightarrow> string \<Rightarrow> real list \<Rightarrow> int \<Rightarrow> 's world \<Rightarrow> (error + match list) \<times> 's world" where
  "hybrid_search sv q query_embedding k w =
     (case call_search sv q query_embedding k w of
        (Inl e, w') \<Rightarrow> (Inl e, w')
      | (Inr results, w') \<Rightarrow>
          (Inr (map (\<lambda>r. \<lparr>m_chunk_id = m_chunk_id r, m_content = m_content r,
                           m_page_numbers = m_page_numbers r,
                           m_section_title = m_section_title r, score = score r\<rparr>) results), w'))"

section \<open>RAG pipeline (src/rag_pipeline.py)\<close>

record source =
  pages :: "nat list"
  section_name :: "string option"
  relevance_score :: pyfloat

record RAGResponse =
  answer :: string
  sources :: "source list"
  confidence :: string

text \<open>
  What the constructor of \<^verbatim>\<open>RAGPipeline\<close> reads from the configuration: \<^verbatim>\<open>top_k\<close>
  (\<^verbatim>\<open>TOP_K_RESULTS\<close>, default 5) and the system prompt, kept as the function
  \<^verbatim>\<open>SYSTEM_PROMPT.format(context=...)\<close> of the context.
\<close>

record pipeline =
  top_k :: int
  system_prompt :: "string \<Rightarrow> string"

definition retrieve ::
  "'s services \<Rightarrow> pipeline \<Rightarrow> string \<Rightarrow> 's world \<Rightarrow> (error + match list) \<times> 's world" where
  "retrieve sv p q w =
     (case get_embedding sv q w of
        (Inl e, w') \<Rightarrow> (Inl e, w')
      | (Inr query_embedding, w') \<Rightarrow> hybrid_search sv q query_embedding (top_k p) w')"

text \<open>
  One block of \<^verbatim>\<open>format_context\<close>:
  \<^verbatim>\<open>f"[Source {i} - Page {pages}{section_str}]\n{chunk['content']}\n"\<close>.
\<close>

definition context_part :: "nat \<Rightarrow> match \<Rightarrow> string" where
  "context_part i chunk =
     (let pages = join '', '' (map str_nat (m_page_numbers chunk));
          section_str = (case m_section_title chunk of
                           None \<Rightarrow> []
                         | Some s \<Rightarrow> if s = [] then [] else '' ('' @ s @ '')'')
      in ''[Source '' @ str_nat i @ '' - Page '' @ pages @ section_str @ '']'' @ [CHR 0x0A]
           @ m_content chunk @ [CHR 0x0A])"

definition format_context :: "match list \<Rightarrow> string" where
  "format_context chunks =
     join ([CHR 0x0A] @ ''---'' @ [CHR 0x0A])
       (map (\<lambda>(i, chunk). context_part i chunk) (zip [1 ..< Suc (length chunks)] chunks))"

text \<open>
  \<^verbatim>\<open>generate\<close>: one chat completion request, and
  \<^verbatim>\<open>response.choices[0].message.content or ""\<close>. It is not decorated with
  \<^verbatim>\<open>@retry\<close>.
\<close>

definition generate ::
  "'s services \<Rightarrow> pipeline \<Rightarrow> string \<Rightarrow> string \<Rightarrow> 's world \<Rightarrow> (error + string) \<times> 's world" where
  "generate sv p q context w =
     (case call_chat sv (system_prompt p context) q w of
        (Inl e, w') \<Rightarrow> (Inl e, w')
      | (Inr None, w') \<Rightarrow> (Inr [], w')
      | (Inr (Some txt), w') \<Rightarrow> (Inr txt, w'))"

definition not_found_answer :: string where
  "not_found_answer =
     ''I couldn't find relevant information in the documentation to answer your question. ''
     @ ''Please try rephrasing or ask about a different topic related to the T-Mobile 5G Gateway.''"

text \<open>
  The confidence heuristic at the end of \<^verbatim>\<open>query\<close>, on \<^verbatim>\<open>top_score\<close>: two float
  comparisons with the literals \<^verbatim>\<open>0.03\<close> and \<^verbatim>\<open>0.02\<close>.
\<close>

definition confidence_of :: "pyfloat \<Rightarrow> string" where
  "confidence_of top_score =
     (if float_gt top_score literal_0_03 then ''high''
      else if float_gt top_score literal_0_02 then ''medium''
      else ''low'')"

definition query ::
  "'s services \<Rightarrow> pipeline \<Rightarrow> string \<Rightarrow> 's world \<Rightarrow> (error + RAGResponse) \<times> 's world" where
  "query sv p user_query w =
     (case retrieve sv p user_query w of
        (Inl e, w1) \<Rightarrow> (Inl e, w1)
      | (Inr chunks, w1) \<Rightarrow>
          if chunks = [] then
            (Inr \<lparr>answer = not_found_answer, sources = [], confidence = ''low''\<rparr>, w1)
          else
            (case generate sv p user_query (format_context chunks) w1 of
               (Inl e, w2) \<Rightarrow> (Inl e, w2)
             | (Inr ans, w2) \<Rightarrow>
                 (let srcs = map (\<lambda>chunk. \<lparr>pages = m_page_numbers chunk,
                                             section_name = m_section_title chunk,
                                             relevance_score = score chunk\<rparr>) chunks;
                      top_score = (case chunks of [] \<Rightarrow> Finite 0 | c # cs \<Rightarrow> score c)
                  in (Inr \<lparr>answer = ans, sources = srcs,
                           confidence = confidence_of top_score\<rparr>, w2))))"

section \<open>Reading the call trace\<close>

text \<open>The number of generation requests recorded in a trace.\<close>

fun is_chat :: "event \<Rightarrow> bool" where
  "is_chat (ChatCompletionsCreate sys usr) = True"
| "is_chat ev = False"

definition chat_calls :: "event list \<Rightarrow> nat" where
  "chat_calls t = length (filter is_chat t)"

text \<open>The documents handed to the index, in upload order.\<close>

fun uploaded :: "event list \<Rightarrow> index_document list" where
  "uploaded [] = []"
| "uploaded (UploadDocuments batch # t) = batch @ uploaded t"
| "uploaded (ev # t) = uploaded t"

section \<open>Concrete environments, services and worlds\<close>

text \<open>
  \<open>env_blank_key\<close> sets all five required variables, one of them to the empty string
  (a line \<^verbatim>\<open>AZURE_SEARCH_API_KEY=\<close> of a .env file); \<open>env_two_missing\<close> leaves one
  unset and one empty.
\<close>

definition env_blank_key :: environ where
  "env_blank_key v = (if v = ''AZURE_SEARCH_API_KEY'' then Some [] else Some ''x'')"

definition env_two_missing :: environ where
  "env_two_missing v =
     (if v = ''AZURE_OPENAI_ENDPOINT'' then None
      else if v = ''AZURE_SEARCH_API_KEY'' then Some []
      else Some ''set'')"

text \<open>
  \<open>demo_services sc\<close> answers every request: an embedding is the one-element vector of
  the text's length, the search finds two matches for the query \<open>reset\<close> (the top one
  with score \<open>sc\<close>) and none for any other query. \<open>flaky_services\<close> fails its first
  request with a rate-limit error and answers embeddings from the second on; its chat
  endpoint always fails. The service state counts the requests.
\<close>

definition demo_services :: "pyfloat \<Rightarrow> nat services" where
  "demo_services sc =
     \<lparr>embeddings_create = (\<lambda>s b. (Inr (map (\<lambda>t. [real (length t)]) b), Suc s)),
      search = (\<lambda>s q v k.
         ((if q = ''reset''
          then Inr [\<lparr>m_chunk_id = ''chunk_0007'', m_content = ''Hold the reset button.'',
                     m_page_numbers = [12], m_section_title = Some [], score = sc\<rparr>,
                    \<lparr>m_chunk_id = ''chunk_0003'', m_content = ''LED status.'',
                     m_page_numbers = [4, 5], m_section_title = Some [], score = literal_0_04\<rparr>]
          else Inr []), Suc s)),
      chat_create = (\<lambda>s sys usr. (Inr (Some ''See page 12.''), Suc s)),
      upload_documents = (\<lambda>s batch. (Inr (), Suc s))\<rparr>"

definition flaky_services :: "nat services" where
  "flaky_services =
     \<lparr>embeddings_create = (\<lambda>s b.
         if s = 0 then (Inl (ServiceError ''429''), Suc s)
         else (Inr (map (\<lambda>t. [real (length t)]) b), Suc s)),
      search = (\<lambda>s q v k. (Inr [], Suc s)),
      chat_create = (\<lambda>s sys usr. (Inl (ServiceError ''429''), Suc s)),
      upload_documents = (\<lambda>s batch. (Inl (ServiceError ''429''), Suc s))\<rparr>"

definition demo_pipeline :: pipeline where
  "demo_pipeline = \<lparr>top_k = 5, system_prompt = (\<lambda>context. ''CONTEXT: '' @ context)\<rparr>"

definition world0 :: "nat world" where
  "world0 = \<lparr>svc = 0, trace = []\<rparr>"

text \<open>
  \<open>manual_pdf\<close> has three pages, the second without text; pypdf yields fewer than 1000
  characters, so the pdfplumber reading is the one chunked. \<open>manual_processor\<close> cuts it
  into one segment per page. \<open>repeat_pdf\<close> has two pages, the second repeating the end
  of the first; \<open>repeat_processor\<close> has \<^verbatim>\<open>chunk_size=7\<close>, \<^verbatim>\<open>chunk_overlap=0\<close>, and its
  splitter returns the two segments \<^verbatim>\<open>RecursiveCharacterTextSplitter\<close> cuts that buffer
  into at this size, one per page.
\<close>

definition manual_pdf :: pdf where
  "manual_pdf =
     \<lparr>pypdf_pages = [Some ''Setup guide'', None, Some ''  Reset steps ''],
      pdfplumber_pages = [Some ''Setup guide'', Some [], Some ''Reset steps'']\<rparr>"

definition manual_processor :: PDFProcessor where
  "manual_processor =
     \<lparr>chunk_size = 12, chunk_overlap = 0,
      text_splitter = (\<lambda>text. Inr [''Setup guide'', ''Reset steps''])\<rparr>"

definition repeat_pdf :: pdf where
  "repeat_pdf =
     \<lparr>pypdf_pages = [Some ''a bbbb'', Some ''bbbb''],
      pdfplumber_pages = [Some ''a bbbb'', Some ''bbbb'']\<rparr>"

definition repeat_processor :: PDFProcessor where
  "repeat_processor =
     \<lparr>chunk_size = 7, chunk_overlap = 0,
      text_splitter = (\<lambda>text. Inr [''a bbbb'', ''bbbb''])\<rparr>"

section \<open>Configuration validation\<close>

lemma validate_loop_filter:
  "validate_loop env vars errors =
     errors @ map missing_message (filter (\<lambda>vd. \<not> truthy (env (fst vd))) vars)"
  by (induction vars arbitrary: errors) auto

lemma validate_config_filter:
  "validate_config env =
     map missing_message (filter (\<lambda>vd. \<not> truthy (env (fst vd))) required_vars)"
  by (simp add: validate_config_def validate_loop_filter)

text \<open>
  C9, as stated, at an environment in which every required variable is set:
  \<^verbatim>\<open>AZURE_SEARCH_API_KEY\<close> is set to the empty string, and \<open>validate_config\<close> still
  reports it, so the list is not empty although no variable is absent.
\<close>

theorem validate_config_blank_counterexample:
  "env_blank_key ''AZURE_OPENAI_ENDPOINT'' \<noteq> None \<and>
   env_blank_key ''AZURE_OPENAI_EMBEDDING_DEPLOYMENT'' \<noteq> None \<and>
   env_blank_key ''AZURE_OPENAI_CHAT_DEPLOYMENT'' \<noteq> None \<and>
   env_blank_key ''AZURE_SEARCH_ENDPOINT'' \<noteq> None \<and>
   env_blank_key ''AZURE_SEARCH_API_KEY'' \<noteq> None \<and>
   validate_config env_blank_key = [''Missing AZURE_SEARCH_API_KEY: Azure AI Search API key'']"
  by (simp add: env_blank_key_def validate_config_def required_vars_def truthy_def
      missing_message_def)

text \<open>
  C9, amended: \<open>validate_config\<close> returns, in the order of \<open>required_vars\<close>, exactly one
  entry for every required variable that is unset or set to the empty string, all in one
  list; the list is empty exactly when every required variable is set to a non-empty
  value; and the callers' check stops with the whole list before anything else runs,
  proceeding only when the list is empty.
\<close>

theorem validate_config_reports_all:
  "validate_config env =
     map missing_message
       (filter (\<lambda>vd. env (fst vd) = None \<or> env (fst vd) = Some []) required_vars)
   \<and> (validate_config env = [] \<longleftrightarrow>
        (\<forall>vd \<in> set required_vars. \<exists>s. env (fst vd) = Some s \<and> s \<noteq> []))
   \<and> startup_check env rest =
        (if validate_config env = [] then Proceed rest else Blocked (validate_config env))"
proof -
  have t: "\<not> truthy v \<longleftrightarrow> v = None \<or> v = Some []" for v
    by (cases v) (auto simp: truthy_def)
  have a: "validate_config env =
     map missing_message
       (filter (\<lambda>vd. env (fst vd) = None \<or> env (fst vd) = Some []) required_vars)"
    by (simp add: validate_config_filter t)
  have b: "validate_config env = [] \<longleftrightarrow>
        (\<forall>vd \<in> set required_vars. \<exists>s. env (fst vd) = Some s \<and> s \<noteq> [])"
    unfolding a by (auto simp: filter_empty_conv)
  have c: "startup_check env rest =
        (if validate_config env = [] then Proceed rest else Blocked (validate_config env))"
    by (simp add: startup_check_def Let_def)
  from a b c show ?thesis by blast
qed

theorem validate_config_reports_all_witness:
  "validate_config env_two_missing =
     [''Missing AZURE_OPENAI_ENDPOINT: Azure OpenAI endpoint URL'',
      ''Missing AZURE_SEARCH_API_KEY: Azure AI Search API key'']
   \<and> validate_config (\<lambda>v. Some ''set'') = []
   \<and> startup_check (\<lambda>v. Some ''set'') () = Proceed ()"
proof -
  have 1: "validate_config env_two_missing =
     [''Missing AZURE_OPENAI_ENDPOINT: Azure OpenAI endpoint URL'',
      ''Missing AZURE_SEARCH_API_KEY: Azure AI Search API key'']"
    using validate_config_reports_all [of env_two_missing "()"]
    by (simp add: env_two_missing_def required_vars_def missing_message_def)
  have 2: "validate_config (\<lambda>v. Some ''set'') = []"
    using validate_config_reports_all [of "\<lambda>v. Some ''set''" "()"]
    by simp
  have 3: "startup_check (\<lambda>v. Some ''set'') () = Proceed ()"
    using validate_config_reports_all [of "\<lambda>v. Some ''set''" "()"] 2
    by simp
  from 1 2 3 show ?thesis by blast
qed

section \<open>Chunking: page numbers, indices, totals\<close>

lemma spanned_pages_filter:
  "spanned_pages pb cs ce =
     map (\<lambda>(s, e, p). p) (filter (\<lambda>(s, e, p). cs < e \<and> ce > s) pb)"
  by (induction pb cs ce rule: spanned_pages.induct) auto

lemma page_loop_page_nums:
  "map (\<lambda>(s, e, p). p) (snd (page_loop pgs ft pb)) =
     map (\<lambda>(s, e, p). p) pb @ map fst (filter (\<lambda>(n, t). t \<noteq> []) pgs)"
proof (induction pgs arbitrary: ft pb)
  case Nil
  show ?case by simp
next
  case (Cons a pgs)
  obtain n t where a: "a = (n, t)" by (cases a)
  show ?case
    using a Cons.IH by (cases "t = []") (simp_all add: Let_def)
qed

lemma enumerate_page_nums:
  "map fst (map (\<lambda>(i, page). (i + 1, g page)) (enumerate n raw)) =
     [Suc n ..< Suc (n + length raw)]"
  by (induction raw arbitrary: n) (simp_all add: upt_conv_Cons del: upt_Suc)

lemma extract_pages_nums: "map fst (extract_pages raw) = [1 ..< Suc (length raw)]"
  unfolding extract_pages_def enumerate_page_nums by simp

lemma extract_with_fallback_sorted:
  "sorted_wrt (<) (map fst (extract_with_fallback f))"
proof -
  have "sorted_wrt (<) (map fst (extract_pages raw))" for raw
    by (simp only: extract_pages_nums sorted_wrt_upt)
  then show ?thesis
    by (simp add: extract_with_fallback_def extract_text_pypdf_def extract_text_pdfplumber_def
        Let_def)
qed

lemma page_boundaries_page_nums:
  "map (\<lambda>(s, e, p). p) (page_boundaries_of f) =
     map fst (filter (\<lambda>(n, t). t \<noteq> []) (extract_with_fallback f))"
  by (simp add: page_boundaries_of_def page_loop_page_nums)

lemma page_boundaries_sorted:
  "sorted_wrt (<) (map (\<lambda>(s, e, p). p) (page_boundaries_of f))"
proof -
  have "sorted_wrt (<) (map fst (filter (\<lambda>(n, t). t \<noteq> []) (extract_with_fallback f)))"
    using extract_with_fallback_sorted [of f]
    by (simp add: sorted_wrt_map sorted_wrt_filter)
  then show ?thesis by (simp add: page_boundaries_page_nums)
qed

lemma spanned_pages_sorted:
  "sorted_wrt (<) (map (\<lambda>(s, e, p). p) pb) \<Longrightarrow> sorted_wrt (<) (spanned_pages pb cs ce)"
  by (simp add: spanned_pages_filter sorted_wrt_map sorted_wrt_filter)

lemma chunk_loop_pages:
  "((cs, ce), c) \<in> set (chunk_loop ft pb tot i cp chunks) \<Longrightarrow>
     page_numbers c = (if spanned_pages pb cs ce = [] then [1] else spanned_pages pb cs ce)
     \<and> ce = cs + length (content c)"
  by (induction chunks arbitrary: i cp) (auto simp: Let_def)


lemma manual_located:
  "located_chunks manual_processor manual_pdf =
     Inr [((0, 11), \<lparr>chunk_id = ''chunk_0000'', content = ''Setup guide'', page_numbers = [1],
                     section_title = None, chunk_index = 0, total_chunks = 2\<rparr>),
          ((13, 24), \<lparr>chunk_id = ''chunk_0001'', content = ''Reset steps'', page_numbers = [3],
                      section_title = None, chunk_index = 1, total_chunks = 2\<rparr>)]"
  by code_simp

lemma manual_table: "page_boundaries_of manual_pdf = [(0, 13, 1), (13, 26, 3)]"
  by code_simp

lemma manual_chunks:
  "chunk_document manual_processor manual_pdf =
     Inr [\<lparr>chunk_id = ''chunk_0000'', content = ''Setup guide'', page_numbers = [1],
           section_title = None, chunk_index = 0, total_chunks = 2\<rparr>,
          \<lparr>chunk_id = ''chunk_0001'', content = ''Reset steps'', page_numbers = [3],
           section_title = None, chunk_index = 1, total_chunks = 2\<rparr>]"
  by (simp add: chunk_document_def manual_located)

text \<open>
  C3: every chunk the loop yields, with the span \<open>[chunk_start, chunk_end)\<close> located for
  it, has as page numbers the pages of the boundary table whose range \<open>[start, end_char)\<close>
  satisfies \<open>chunk_start < end_char\<close> and \<open>chunk_end > start\<close>, in table order, which
  is strictly ascending page order; when there is no such page the list is \<open>[1]\<close>, so
  it is never empty.
\<close>

theorem chunk_page_numbers:
  assumes "located_chunks P f = Inr located"
  shows "\<forall>((chunk_start, chunk_end), c) \<in> set located.
     (let overlapping =
            map (\<lambda>(start, end_char, page_num). page_num)
              (filter (\<lambda>(start, end_char, page_num). chunk_start < end_char \<and> chunk_end > start)
                 (page_boundaries_of f))
      in page_numbers c = (if overlapping = [] then [1] else overlapping)
         \<and> sorted_wrt (<) overlapping)
     \<and> page_numbers c \<noteq> []"
proof (clarify)
  fix cs ce c
  assume "((cs, ce), c) \<in> set located"
  with assms have pn: "page_numbers c =
      (if spanned_pages (page_boundaries_of f) cs ce = [] then [1]
       else spanned_pages (page_boundaries_of f) cs ce)"
    by (auto simp: located_chunks_def Let_def split: sum.splits dest: chunk_loop_pages)
  have so: "sorted_wrt (<) (spanned_pages (page_boundaries_of f) cs ce)"
    by (rule spanned_pages_sorted [OF page_boundaries_sorted])
  show "(let overlapping =
            map (\<lambda>(start, end_char, page_num). page_num)
              (filter (\<lambda>(start, end_char, page_num). cs < end_char \<and> ce > start)
                 (page_boundaries_of f))
      in page_numbers c = (if overlapping = [] then [1] else overlapping)
         \<and> sorted_wrt (<) overlapping)
     \<and> page_numbers c \<noteq> []"
    using pn so unfolding Let_def spanned_pages_filter [symmetric] by simp
qed

theorem chunk_page_numbers_witness:
  "(\<exists>located. located_chunks manual_processor manual_pdf = Inr located
      \<and> ((13, 24), \<lparr>chunk_id = ''chunk_0001'', content = ''Reset steps'', page_numbers = [3],
               section_title = None, chunk_index = 1, total_chunks = 2\<rparr>) \<in> set located)
   \<and> map (\<lambda>(start, end_char, page_num). page_num)
        (filter (\<lambda>(start, end_char, page_num). 13 < end_char \<and> 24 > start)
           (page_boundaries_of manual_pdf)) = [3]
   \<and> sorted_wrt (<) [3::nat]"
proof -
  let ?c = "\<lparr>chunk_id = ''chunk_0001'', content = ''Reset steps'', page_numbers = [3],
               section_title = None, chunk_index = 1, total_chunks = 2\<rparr>"
  let ?l = "[((0, 11), \<lparr>chunk_id = ''chunk_0000'', content = ''Setup guide'', page_numbers = [1],
                     section_title = None, chunk_index = 0, total_chunks = 2\<rparr>),
          ((13, 24), ?c)]"
  have m: "((13, 24), ?c) \<in> set ?l"
    by simp
  from chunk_page_numbers [OF manual_located] m
  have "(let overlapping =
            map (\<lambda>(start, end_char, page_num). page_num)
              (filter (\<lambda>(start, end_char, page_num). 13 < end_char \<and> 24 > start)
                 (page_boundaries_of manual_pdf))
      in page_numbers ?c = (if overlapping = [] then [1] else overlapping)
         \<and> sorted_wrt (<) overlapping)
     \<and> page_numbers ?c \<noteq> []"
    by fast
  with m manual_located show ?thesis
    by (simp add: manual_table)
qed

lemma chunk_loop_indices:
  "map (\<lambda>x. chunk_index (snd x)) (chunk_loop ft pb tot i cp chunks) = [i ..< i + length chunks]"
proof (induction chunks arbitrary: i cp)
  case Nil
  show ?case by simp
next
  case (Cons a chunks)
  have u: "[i ..< i + length (a # chunks)] = i # [Suc i ..< Suc i + length chunks]"
    by (simp add: upt_conv_Cons del: upt_Suc)
  show ?case
    unfolding u using Cons.IH [of "Suc i"] by (simp add: Let_def del: upt_Suc)
qed

lemma chunk_loop_length: "length (chunk_loop ft pb tot i cp chunks) = length chunks"
  by (induction chunks arbitrary: i cp) (auto simp: Let_def)

lemma chunk_loop_total:
  "x \<in> set (chunk_loop ft pb tot i cp chunks) \<Longrightarrow> total_chunks (snd x) = tot"
  by (induction chunks arbitrary: i cp) (auto simp: Let_def)

lemma chunk_loop_section:
  "x \<in> set (chunk_loop ft pb tot i cp chunks) \<Longrightarrow> section_title (snd x) = None"
  by (induction chunks arbitrary: i cp) (auto simp: Let_def)

lemma chunk_loop_content:
  "map (\<lambda>x. content (snd x)) (chunk_loop ft pb tot i cp chunks) = chunks"
  by (induction chunks arbitrary: i cp) (auto simp: Let_def)


lemma chunk_document_length:
  "chunk_document P f = Inr chunks \<Longrightarrow>
     \<exists>segments. text_splitter P (full_text_of f) = Inr segments
        \<and> length chunks = length segments \<and> map content chunks = segments"
  by (auto simp: chunk_document_def located_chunks_def Let_def chunk_loop_length comp_def
      chunk_loop_content split: sum.splits)

text \<open>
  C4: the chunk indices of a document are \<open>0, 1, \<dots>, n - 1\<close> in the order the chunks
  are yielded, where \<open>n\<close> is the number of chunks yielded, and every chunk carries
  \<open>n\<close> as its total.
\<close>

theorem chunk_index_contiguous:
  assumes "chunk_document P f = Inr chunks"
  shows "map chunk_index chunks = [0 ..< length chunks]
       \<and> (\<forall>c \<in> set chunks. total_chunks c = length chunks)"
proof -
  from assms obtain segments where
    seg: "text_splitter P (full_text_of f) = Inr segments"
    and ch: "chunks = map snd (chunk_loop (full_text_of f) (page_boundaries_of f)
                                 (length segments) 0 0 segments)"
    by (auto simp: chunk_document_def located_chunks_def Let_def split: sum.splits)
  have len: "length chunks = length segments"
    by (simp add: ch chunk_loop_length)
  have "map chunk_index chunks = [0 ..< length chunks]"
    unfolding len by (simp add: ch comp_def chunk_loop_indices)
  moreover have "\<forall>c \<in> set chunks. total_chunks c = length chunks"
    unfolding len by (auto simp: ch dest: chunk_loop_total)
  ultimately show ?thesis by simp
qed

theorem chunk_index_contiguous_witness:
  "\<exists>chunks. chunk_document manual_processor manual_pdf = Inr chunks
     \<and> map chunk_index chunks = [0, 1] \<and> map total_chunks chunks = [2, 2]"
proof -
  have "[0 ..< 2] = [0, Suc 0]" by (simp add: upt_conv_Cons)
  with chunk_index_contiguous [OF manual_chunks] manual_chunks
  show ?thesis by simp
qed

text \<open>
  C5, at a two-page document whose second page repeats text of the first
  (\<^verbatim>\<open>chunk_size=7\<close>, \<^verbatim>\<open>chunk_overlap=0\<close>): both pages have text and an entry in
  the boundary table, the second segment is the text of page 2, but
  \<^verbatim>\<open>full_text.find\<close> from the cursor 1 finds it at offset 2, inside page 1, so both
  chunks get the page list \<open>[1]\<close> and page 2 is in no chunk's page numbers.
\<close>

theorem chunk_pages_uncovered:
  "extract_with_fallback repeat_pdf = [(1, ''a bbbb''), (2, ''bbbb'')]
   \<and> page_boundaries_of repeat_pdf = [(0, 8, 1), (8, 14, 2)]
   \<and> located_chunks repeat_processor repeat_pdf =
       Inr [((0, 6), \<lparr>chunk_id = ''chunk_0000'', content = ''a bbbb'', page_numbers = [1],
                      section_title = None, chunk_index = 0, total_chunks = 2\<rparr>),
            ((2, 6), \<lparr>chunk_id = ''chunk_0001'', content = ''bbbb'', page_numbers = [1],
                      section_title = None, chunk_index = 1, total_chunks = 2\<rparr>)]
   \<and> chunk_document repeat_processor repeat_pdf =
       Inr [\<lparr>chunk_id = ''chunk_0000'', content = ''a bbbb'', page_numbers = [1],
             section_title = None, chunk_index = 0, total_chunks = 2\<rparr>,
            \<lparr>chunk_id = ''chunk_0001'', content = ''bbbb'', page_numbers = [1],
             section_title = None, chunk_index = 1, total_chunks = 2\<rparr>]"
  by code_simp

section \<open>Chunk size\<close>

text \<open>
  With the empty merge separator the running total of the merge loop is the length of
  the pieces collected, and it never exceeds the chunk size; the last separator is the
  empty one, so a piece that is not shorter than the chunk size is a single character.
\<close>

lemma strip_length: "length (strip s) \<le> length s"
proof -
  have "length (dropWhile P xs) \<le> length xs" for P and xs :: string
    by (rule length_dropWhile_le)
  then show ?thesis
    unfolding strip_def
    by (metis length_rev order_trans)
qed

lemma join_empty_sep: "join [] docs = concat docs"
  by (induction "[] :: string" docs rule: join.induct) simp_all

lemma length_concat_int: "int (length (concat docs)) = (\<Sum>d\<leftarrow>docs. int (length d))"
  by (induction docs) simp_all

lemma join_docs_length:
  assumes "join_docs docs [] = Some doc"
  shows "int (length doc) \<le> (\<Sum>d\<leftarrow>docs. int (length d))"
proof -
  from assms have "doc = strip (concat docs)"
    by (auto simp: join_docs_def Let_def join_empty_sep split: if_splits)
  then have "length doc \<le> length (concat docs)" by (simp add: strip_length)
  then show ?thesis by (simp add: length_concat_int [symmetric])
qed

lemma pop_while_inv:
  assumes "0 \<le> ov"
  shows "t = (\<Sum>d\<leftarrow>cd. int (length d)) \<Longrightarrow>
     \<exists>cd' t'. pop_while cs ov 0 len cd t = Inr (cd', t')
        \<and> t' = (\<Sum>d\<leftarrow>cd'. int (length d)) \<and> (t' + len \<le> cs \<or> t' = 0)"
proof (induction cd arbitrary: t)
  case Nil
  then show ?case using assms
    by (subst pop_while.simps) simp
next
  case (Cons x xs)
  have nn: "0 \<le> (\<Sum>d\<leftarrow>x # xs. int (length d))"
    by (rule sum_list_nonneg) auto
  show ?case
  proof (cases "ov < t \<or> (cs < t + len \<and> 0 < t)")
    case True
    have "t - int (length x) = (\<Sum>d\<leftarrow>xs. int (length d))"
      using Cons.prems by simp
    from Cons.IH [OF this] True show ?thesis
      by (subst pop_while.simps) simp
  next
    case False
    with Cons.prems nn show ?thesis
      by (subst pop_while.simps) auto
  qed
qed

lemma merge_loop_inv:
  assumes ov: "0 \<le> ov"
  shows "\<lbrakk>\<forall>d \<in> set splits. int (length d) < cs;
          t = (\<Sum>d\<leftarrow>cd. int (length d)); t \<le> cs;
          \<forall>d \<in> set docs. int (length d) \<le> cs\<rbrakk>
     \<Longrightarrow> \<exists>docs' cd' t'. merge_loop cs ov [] splits docs cd t = Inr (docs', cd', t')
           \<and> t' = (\<Sum>d\<leftarrow>cd'. int (length d)) \<and> t' \<le> cs
           \<and> (\<forall>d \<in> set docs'. int (length d) \<le> cs)"
proof (induction splits arbitrary: docs cd t)
  case Nil
  then show ?case by simp
next
  case (Cons d rest)
  let ?len = "int (length d)"
  have dl: "?len < cs" using Cons.prems(1) by simp
  have rest: "\<forall>d \<in> set rest. int (length d) < cs" using Cons.prems(1) by simp
  show ?case
  proof (cases "cs < t + ?len \<and> 0 < length cd")
    case True
    from pop_while_inv [OF ov Cons.prems(2), of cs ?len]
    obtain cd' t' where pw: "pop_while cs ov 0 ?len cd t = Inr (cd', t')"
      and t': "t' = (\<Sum>d\<leftarrow>cd'. int (length d))"
      and fit: "t' + ?len \<le> cs \<or> t' = 0"
      by blast
    let ?docs' = "(case join_docs cd [] of None \<Rightarrow> docs | Some doc \<Rightarrow> docs @ [doc])"
    have docs': "\<forall>d \<in> set ?docs'. int (length d) \<le> cs"
    proof (cases "join_docs cd []")
      case None
      with Cons.prems(4) show ?thesis by simp
    next
      case (Some doc)
      from join_docs_length [OF Some] Cons.prems(2,3) have "int (length doc) \<le> cs" by simp
      with Some Cons.prems(4) show ?thesis by auto
    qed
    have s: "t' + ?len = (\<Sum>d\<leftarrow>cd' @ [d]. int (length d))" using t' by simp
    have b: "t' + ?len \<le> cs" using fit dl by auto
    from Cons.IH [OF rest s b docs']
    obtain docs'' cd'' t'' where
      "merge_loop cs ov [] rest ?docs' (cd' @ [d]) (t' + ?len) = Inr (docs'', cd'', t'')"
      "t'' = (\<Sum>d\<leftarrow>cd''. int (length d))" "t'' \<le> cs"
      "\<forall>d \<in> set docs''. int (length d) \<le> cs"
      by blast
    with True pw show ?thesis by (simp add: Let_def)
  next
    case False
    have s: "t + ?len = (\<Sum>d\<leftarrow>cd @ [d]. int (length d))" using Cons.prems(2) by simp
    have b: "t + ?len \<le> cs"
    proof (cases "cd = []")
      case True
      with Cons.prems(2) dl show ?thesis by simp
    next
      case False
      with \<open>\<not> (cs < t + ?len \<and> 0 < length cd)\<close> show ?thesis by simp
    qed
    from Cons.IH [OF rest s b Cons.prems(4)]
    obtain docs'' cd'' t'' where
      "merge_loop cs ov [] rest docs (cd @ [d]) (t + ?len) = Inr (docs'', cd'', t'')"
      "t'' = (\<Sum>d\<leftarrow>cd''. int (length d))" "t'' \<le> cs"
      "\<forall>d \<in> set docs''. int (length d) \<le> cs"
      by blast
    with False show ?thesis by (auto simp add: Let_def)
  qed
qed

lemma merge_splits_bound:
  assumes "0 \<le> ov" "\<forall>d \<in> set splits. int (length d) < cs"
  shows "\<exists>out. merge_splits cs ov splits [] = Inr out \<and> (\<forall>d \<in> set out. int (length d) \<le> cs)"
proof (cases "splits = []")
  case True
  then show ?thesis
    by (simp add: merge_splits_def join_docs_def strip_def)
next
  case False
  then obtain d where "d \<in> set splits" by (cases splits) auto
  with assms(2) have "0 \<le> cs" by fastforce
  from merge_loop_inv [OF assms(1), of splits cs 0 "[]" "[]"] assms(2) this
  obtain docs cd t where m: "merge_loop cs ov [] splits [] [] 0 = Inr (docs, cd, t)"
    and t: "t = (\<Sum>d\<leftarrow>cd. int (length d))" "t \<le> cs"
    and d: "\<forall>d \<in> set docs. int (length d) \<le> cs"
    by auto
  show ?thesis
  proof (cases "join_docs cd []")
    case None
    with m d show ?thesis by (simp add: merge_splits_def)
  next
    case (Some doc)
    from join_docs_length [OF Some] t have "int (length doc) \<le> cs" by simp
    with Some m d show ?thesis by (auto simp: merge_splits_def)
  qed
qed

lemma splits_loop_bound:
  assumes ov: "0 \<le> ov"
  shows "\<lbrakk>\<forall>s \<in> set splits. \<not> int (length s) < cs \<longrightarrow>
             (\<exists>other. longer s = Inr other \<and> (\<forall>d \<in> set other. int (length d) \<le> cs));
          \<forall>d \<in> set good. int (length d) < cs;
          \<forall>d \<in> set final. int (length d) \<le> cs\<rbrakk>
     \<Longrightarrow> \<exists>out. splits_loop cs ov [] longer splits good final = Inr out
           \<and> (\<forall>d \<in> set out. int (length d) \<le> cs)"
proof (induction splits arbitrary: good final)
  case Nil
  from merge_splits_bound [OF ov Nil.prems(2)]
  obtain merged where "merge_splits cs ov good [] = Inr merged"
    "\<forall>d \<in> set merged. int (length d) \<le> cs" by blast
  with Nil.prems(3) show ?case by auto
next
  case (Cons s rest)
  have rest: "\<forall>s \<in> set rest. \<not> int (length s) < cs \<longrightarrow>
             (\<exists>other. longer s = Inr other \<and> (\<forall>d \<in> set other. int (length d) \<le> cs))"
    using Cons.prems(1) by simp
  show ?case
  proof (cases "int (length s) < cs")
    case True
    then have g: "\<forall>d \<in> set (good @ [s]). int (length d) < cs"
      using Cons.prems(2) by simp
    from Cons.IH [OF rest g Cons.prems(3)] True show ?thesis by simp
  next
    case False
    obtain merged where m: "(if good \<noteq> [] then merge_splits cs ov good [] else Inr []) = Inr merged"
      and mb: "\<forall>d \<in> set merged. int (length d) \<le> cs"
      using merge_splits_bound [OF ov Cons.prems(2)] by (cases "good = []") auto
    from Cons.prems(1) False obtain other where o: "longer s = Inr other"
      and ob: "\<forall>d \<in> set other. int (length d) \<le> cs" by auto
    have f: "\<forall>d \<in> set (final @ merged @ other). int (length d) \<le> cs"
      using Cons.prems(3) mb ob by auto
    have e: "\<forall>d \<in> set ([] :: string list). int (length d) < cs" by simp
    from Cons.IH [OF rest e f] False m o show ?thesis by simp
  qed
qed

lemma pick_separator_last:
  "\<lbrakk>separators \<noteq> []; last separators = []\<rbrakk> \<Longrightarrow>
     \<exists>s rest. pick_separator separators tx = Some (s, rest)
        \<and> (rest = [] \<longrightarrow> s = []) \<and> (rest \<noteq> [] \<longrightarrow> last rest = [])"
proof (induction separators)
  case Nil
  then show ?case by simp
next
  case (Cons a separators)
  show ?case
  proof (cases "a = []")
    case True
    then show ?thesis by simp
  next
    case False
    with Cons.prems have ne: "separators \<noteq> []" and la: "last separators = []"
      by (auto split: if_splits)
    show ?thesis
    proof (cases "str_find tx a 0 \<noteq> None")
      case True
      with False ne la show ?thesis by simp
    next
      case nf: False
      from Cons.IH [OF ne la] False nf show ?thesis by simp
    qed
  qed
qed

lemma choose_separator_last:
  assumes "separators \<noteq> []" "last separators = []"
  shows "(snd (choose_separator separators tx) = [] \<longrightarrow> fst (choose_separator separators tx) = [])
       \<and> (snd (choose_separator separators tx) \<noteq> [] \<longrightarrow>
            last (snd (choose_separator separators tx)) = [])"
  using pick_separator_last [OF assms, of tx] by (auto simp: choose_separator_def)

lemma split_chars_length:
  "s \<in> set (split_text_with_regex tx []) \<Longrightarrow> length s = 1"
  by (auto simp: split_text_with_regex_def)

lemma split_text_rec_bound:
  "\<lbrakk>0 < cs; 0 \<le> ov; separators \<noteq> []; last separators = []\<rbrakk> \<Longrightarrow>
     \<exists>out. split_text_rec cs ov separators tx = Inr out
        \<and> (\<forall>d \<in> set out. int (length d) \<le> cs)"
proof (induction cs ov separators tx rule: split_text_rec.induct)
  case (1 cs ov separators tx)
  let ?sep = "fst (choose_separator separators tx)"
  let ?new = "snd (choose_separator separators tx)"
  let ?splits = "split_text_with_regex tx ?sep"
  let ?longer = "\<lambda>s. if ?new = [] then Inr [s] else split_text_rec cs ov ?new s"
  note cl = choose_separator_last [OF "1.prems"(3,4), of tx]
  have longer: "\<forall>s \<in> set ?splits. \<not> int (length s) < cs \<longrightarrow>
      (\<exists>other. ?longer s = Inr other \<and> (\<forall>d \<in> set other. int (length d) \<le> cs))"
  proof (intro ballI impI)
    fix s
    assume s: "s \<in> set ?splits" and "\<not> int (length s) < cs"
    show "\<exists>other. ?longer s = Inr other \<and> (\<forall>d \<in> set other. int (length d) \<le> cs)"
    proof (cases "?new = []")
      case True
      with cl have "?sep = []" by simp
      with s have "length s = 1" by (simp add: split_chars_length)
      with True "1.prems"(1) show ?thesis by simp
    next
      case False
      with cl have "last ?new = []" by simp
      from "1.IH" [OF "1.prems"(3) refl refl refl False "1.prems"(1,2) False this, of s] False
      show ?thesis by simp
    qed
  qed
  from splits_loop_bound [OF "1.prems"(2) longer, of "[]" "[]"]
  obtain out where "splits_loop cs ov [] ?longer ?splits [] [] = Inr out"
    "\<forall>d \<in> set out. int (length d) \<le> cs" by auto
  with "1.prems"(3) show ?case
    by (subst split_text_rec.simps) (simp add: Let_def)
qed

lemma splitter_bound:
  assumes "RecursiveCharacterTextSplitter cs ov separators = Inr splitter"
    and "separators \<noteq> []" and "last separators = []"
  shows "\<exists>out. splitter tx = Inr out \<and> (\<forall>d \<in> set out. int (length d) \<le> cs)"
proof -
  from assms(1) have "0 < cs" "0 \<le> ov" and sp: "splitter = split_text_rec cs ov separators"
    using assms(2) by (auto simp: RecursiveCharacterTextSplitter_def split: if_splits)
  then show ?thesis
    unfolding sp by (intro split_text_rec_bound assms)
qed

text \<open>
  C6: for every document and every target chunk size and overlap the constructor
  accepts, the processor returns its chunks, and no chunk's content is longer than the
  target chunk size plus the tolerance, whatever the tolerance (the bound holds with
  tolerance 0).
\<close>

theorem chunk_content_bounded:
  assumes "PDFProcessor_init size' overlap = Inr P" and "0 \<le> tolerance"
  shows "\<exists>chunks. chunk_document P f = Inr chunks
           \<and> (\<forall>c \<in> set chunks. int (length (content c)) \<le> chunk_size P + tolerance)"
proof -
  from assms(1) obtain splitter where
    sp: "RecursiveCharacterTextSplitter size' overlap
           [[CHR 0x0A, CHR 0x0A], [CHR 0x0A], ''. '', '' '', []] = Inr splitter"
    and P: "P = \<lparr>chunk_size = size', chunk_overlap = overlap, text_splitter = splitter\<rparr>"
    by (auto simp: PDFProcessor_init_def split: sum.splits)
  from splitter_bound [OF sp, of "full_text_of f"]
  obtain segments where seg: "splitter (full_text_of f) = Inr segments"
    and b: "\<forall>d \<in> set segments. int (length d) \<le> size'"
    by auto
  let ?located = "chunk_loop (full_text_of f) (page_boundaries_of f) (length segments) 0 0 segments"
  have cd: "chunk_document P f = Inr (map snd ?located)"
    using seg by (simp add: chunk_document_def located_chunks_def P Let_def)
  have "map content (map snd ?located) = segments"
    by (simp add: comp_def chunk_loop_content)
  then have "\<forall>c \<in> set (map snd ?located). int (length (content c)) \<le> size'"
    using b by (metis (no_types, lifting) image_eqI list.set_map)
  then have "\<forall>c \<in> set (map snd ?located). int (length (content c)) \<le> chunk_size P + tolerance"
    using assms(2) by (auto simp: P)
  with cd show ?thesis by blast
qed

lemma repeat_init:
  "\<exists>P. PDFProcessor_init 7 0 = Inr P
     \<and> text_splitter P (full_text_of repeat_pdf) = Inr [''a bbbb'', ''bbbb'']
     \<and> chunk_document P repeat_pdf =
         Inr [\<lparr>chunk_id = ''chunk_0000'', content = ''a bbbb'', page_numbers = [1],
               section_title = None, chunk_index = 0, total_chunks = 2\<rparr>,
              \<lparr>chunk_id = ''chunk_0001'', content = ''bbbb'', page_numbers = [1],
               section_title = None, chunk_index = 1, total_chunks = 2\<rparr>]"
proof -
  let ?P = "\<lparr>chunk_size = 7, chunk_overlap = 0,
             text_splitter = split_text_rec 7 0
               [[CHR 0x0A, CHR 0x0A], [CHR 0x0A], ''. '', '' '', []]\<rparr>"
  have i: "PDFProcessor_init 7 0 = Inr ?P"
    by (simp add: PDFProcessor_init_def RecursiveCharacterTextSplitter_def)
  have s: "text_splitter ?P (full_text_of repeat_pdf) = Inr [''a bbbb'', ''bbbb'']"
    by code_simp
  have c: "chunk_document ?P repeat_pdf =
         Inr [\<lparr>chunk_id = ''chunk_0000'', content = ''a bbbb'', page_numbers = [1],
               section_title = None, chunk_index = 0, total_chunks = 2\<rparr>,
              \<lparr>chunk_id = ''chunk_0001'', content = ''bbbb'', page_numbers = [1],
               section_title = None, chunk_index = 1, total_chunks = 2\<rparr>]"
    by code_simp
  from i s c show ?thesis by blast
qed

theorem chunk_content_bounded_witness:
  "\<exists>P chunks. PDFProcessor_init 7 0 = Inr P \<and> chunk_size P = 7
     \<and> chunk_document P repeat_pdf = Inr chunks
     \<and> map content chunks = [''a bbbb'', ''bbbb'']
     \<and> int (length ''a bbbb'') \<le> 7 + 0 \<and> int (length ''bbbb'') \<le> 7 + 0"
proof -
  from repeat_init obtain P where i: "PDFProcessor_init 7 0 = Inr P"
    and c: "chunk_document P repeat_pdf =
         Inr [\<lparr>chunk_id = ''chunk_0000'', content = ''a bbbb'', page_numbers = [1],
               section_title = None, chunk_index = 0, total_chunks = 2\<rparr>,
              \<lparr>chunk_id = ''chunk_0001'', content = ''bbbb'', page_numbers = [1],
               section_title = None, chunk_index = 1, total_chunks = 2\<rparr>]"
    by blast
  have cs: "chunk_size P = 7"
    using i by (auto simp: PDFProcessor_init_def split: sum.splits)
  have t: "(0::int) \<le> 0" by simp
  from chunk_content_bounded [OF i t, of repeat_pdf] c cs i
  show ?thesis by auto
qed

section \<open>The query pipeline\<close>

lemma chat_calls_call_embeddings:
  "call_embeddings sv inp w = (r, w') \<Longrightarrow> chat_calls (trace w') = chat_calls (trace w)"
  by (auto simp: call_embeddings_def chat_calls_def split: prod.splits)

lemma chat_calls_call_search:
  "call_search sv q v k w = (r, w') \<Longrightarrow> chat_calls (trace w') = chat_calls (trace w)"
  by (auto simp: call_search_def chat_calls_def split: prod.splits)

lemma chat_calls_sleep: "chat_calls (trace (sleep n w)) = chat_calls (trace w)"
  by (simp add: sleep_def chat_calls_def)

lemma wait_exponential_values:
  "wait_exponential 1 2 10 1 = 2" "wait_exponential 1 2 10 2 = 2"
  by (simp_all add: wait_exponential_def)

lemma retrying_last:
  "retrying 3 wt f 3 w =
     (case f w of (Inr v, w') \<Rightarrow> (Inr v, w') | (Inl e, w') \<Rightarrow> (Inl (RetryError e), w'))"
  by (subst retrying.simps) (simp split: prod.splits sum.splits)

lemma retrying_second:
  "retrying 3 wt f 2 w =
     (case f w of (Inr v, w') \<Rightarrow> (Inr v, w')
      | (Inl e, w') \<Rightarrow> retrying 3 wt f 3 (sleep (wt 2) w'))"
  by (subst retrying.simps) (simp split: prod.splits sum.splits)

lemma retrying_first:
  "retrying 3 wt f 1 w =
     (case f w of (Inr v, w') \<Rightarrow> (Inr v, w')
      | (Inl e, w') \<Rightarrow> retrying 3 wt f 2 (sleep (wt 1) w'))"
  by (subst retrying.simps) (simp add: numeral_2_eq_2 split: prod.splits sum.splits)

lemma get_embedding_unfold:
  "get_embedding sv txt w =
     (case get_embedding_once sv txt w of
        (Inr v, w1) \<Rightarrow> (Inr v, w1)
      | (Inl e1, w1) \<Rightarrow>
          (case get_embedding_once sv txt (sleep 2 w1) of
             (Inr v, w2) \<Rightarrow> (Inr v, w2)
           | (Inl e2, w2) \<Rightarrow>
               (case get_embedding_once sv txt (sleep 2 w2) of
                  (Inr v, w3) \<Rightarrow> (Inr v, w3)
                | (Inl e3, w3) \<Rightarrow> (Inl (RetryError e3), w3))))"
  unfolding get_embedding_def retrying_first retrying_second retrying_last
    wait_exponential_values ..

lemma chat_calls_once:
  "get_embedding_once sv txt w = (r, w') \<Longrightarrow> chat_calls (trace w') = chat_calls (trace w)"
  by (auto simp: get_embedding_once_def split: prod.splits sum.splits list.splits
      dest: chat_calls_call_embeddings)

lemma chat_calls_get_embedding:
  "get_embedding sv txt w = (r, w') \<Longrightarrow> chat_calls (trace w') = chat_calls (trace w)"
  by (auto simp: get_embedding_unfold chat_calls_sleep split: prod.splits sum.splits
      dest!: chat_calls_once)

lemma chat_calls_hybrid_search:
  "hybrid_search sv q v k w = (r, w') \<Longrightarrow> chat_calls (trace w') = chat_calls (trace w)"
  by (auto simp: hybrid_search_def split: prod.splits sum.splits dest: chat_calls_call_search)

text \<open>
  C1: when the embedding of the query is obtained and hybrid search returns no match,
  \<open>query\<close> returns the fixed not-found answer with no sources and confidence \<open>low\<close>, in
  the world hybrid search left, and the trace holds no more generation requests than
  before the query.
\<close>

theorem query_no_matches:
  assumes emb: "get_embedding sv user_query w = (Inr query_embedding, w0)"
    and hits: "hybrid_search sv user_query query_embedding (top_k p) w0 = (Inr [], w1)"
  shows "query sv p user_query w =
           (Inr \<lparr>answer = not_found_answer, sources = [], confidence = ''low''\<rparr>, w1)
         \<and> chat_calls (trace w1) = chat_calls (trace w)"
proof -
  have "retrieve sv p user_query w = (Inr [], w1)"
    using emb hits by (simp add: retrieve_def)
  then have "query sv p user_query w =
           (Inr \<lparr>answer = not_found_answer, sources = [], confidence = ''low''\<rparr>, w1)"
    by (simp add: query_def)
  moreover have "chat_calls (trace w1) = chat_calls (trace w)"
    using chat_calls_get_embedding [OF emb] chat_calls_hybrid_search [OF hits] by simp
  ultimately show ?thesis by simp
qed

theorem query_no_matches_witness:
  "query (demo_services literal_0_05) demo_pipeline ''weather'' world0 =
     (Inr \<lparr>answer = not_found_answer, sources = [], confidence = ''low''\<rparr>,
      \<lparr>svc = 2, trace = [EmbeddingsCreate [''weather''], Search ''weather'' [7] 5]\<rparr>)
   \<and> chat_calls [EmbeddingsCreate [''weather''], Search ''weather'' [7] 5] = chat_calls []"
proof -
  have e: "get_embedding (demo_services literal_0_05) ''weather'' world0 =
             (Inr [7], \<lparr>svc = 1, trace = [EmbeddingsCreate [''weather'']]\<rparr>)"
    by (simp add: get_embedding_unfold get_embedding_once_def call_embeddings_def
        demo_services_def world0_def)
  have h: "hybrid_search (demo_services literal_0_05) ''weather'' [7] (top_k demo_pipeline)
             \<lparr>svc = 1, trace = [EmbeddingsCreate [''weather'']]\<rparr> =
             (Inr [], \<lparr>svc = 2, trace = [EmbeddingsCreate [''weather''], Search ''weather'' [7] 5]\<rparr>)"
    by (simp add: hybrid_search_def call_search_def demo_services_def demo_pipeline_def)
  show ?thesis
    using query_no_matches [OF e h] by (simp add: world0_def)
qed

lemma literals_nearest:
  "\<bar>8646911284551352 / 2 ^ 58 - 3 / 100\<bar> < (1 / 2 ^ 59 :: real)"
  "\<bar>5764607523034235 / 2 ^ 58 - 2 / 100\<bar> < (1 / 2 ^ 59 :: real)"
  "\<bar>7205759403792794 / 2 ^ 57 - 5 / 100\<bar> < (1 / 2 ^ 58 :: real)"
  "\<bar>5764607523034235 / 2 ^ 57 - 4 / 100\<bar> < (1 / 2 ^ 58 :: real)"
  "\<bar>7205759403792794 / 2 ^ 58 - 25 / 1000\<bar> < (1 / 2 ^ 59 :: real)"
  "\<bar>5764607523034235 / 2 ^ 59 - 1 / 100\<bar> < (1 / 2 ^ 60 :: real)"
  by (simp_all add: abs_less_iff field_simps)

lemma literals_mantissa:
  "(2 :: nat) ^ 52 \<le> 8646911284551352 \<and> 8646911284551352 < (2 :: nat) ^ 53"
  "(2 :: nat) ^ 52 \<le> 5764607523034235 \<and> 5764607523034235 < (2 :: nat) ^ 53"
  "(2 :: nat) ^ 52 \<le> 7205759403792794 \<and> 7205759403792794 < (2 :: nat) ^ 53"
  by simp_all

lemma literals_not_decimal:
  "(8646911284551352 / 2 ^ 58 :: real) < 3 / 100"
  "(2 / 100 :: real) < 5764607523034235 / 2 ^ 58"
  by (simp_all add: field_simps)

lemma confidence_of_literals:
  "confidence_of literal_0_05 = ''high''"
  "confidence_of literal_0_025 = ''medium''"
  "confidence_of literal_0_01 = ''low''"
  by (simp_all add: confidence_of_def literal_0_05_def literal_0_025_def literal_0_01_def
      literal_0_03_def literal_0_02_def)

lemma confidence_of_thresholds:
  "confidence_of literal_0_03 = ''medium''"
  "confidence_of literal_0_02 = ''low''"
  by (simp_all add: confidence_of_def literal_0_03_def literal_0_02_def)

lemma confidence_of_special:
  "confidence_of NaN = ''low''"
  "confidence_of PosInf = ''high''"
  "confidence_of NegInf = ''low''"
  by (simp_all add: confidence_of_def literal_0_03_def literal_0_02_def)

text \<open>
  C2: when retrieval returns a non-empty list of matches and generation returns an
  answer, \<open>query\<close> returns a response whose confidence depends on the score of the first
  match only, by the float comparisons of the source: \<open>high\<close> when the score is greater
  than the float \<^verbatim>\<open>0.03\<close>, \<open>medium\<close> when it is not but is greater than the float
  \<^verbatim>\<open>0.02\<close>, \<open>low\<close> otherwise; so the top scores \<^verbatim>\<open>0.05\<close>, \<^verbatim>\<open>0.025\<close> and
  \<^verbatim>\<open>0.01\<close> give \<open>high\<close>, \<open>medium\<close> and \<open>low\<close>.
\<close>

theorem query_confidence:
  assumes ret: "retrieve sv p user_query w = (Inr chunks, w1)"
    and ne: "chunks \<noteq> []"
    and gen: "generate sv p user_query (format_context chunks) w1 = (Inr ans, w2)"
  shows "\<exists>resp. query sv p user_query w = (Inr resp, w2)
           \<and> confidence resp =
               (if float_gt (score (hd chunks)) literal_0_03 then ''high''
                else if float_gt (score (hd chunks)) literal_0_02 then ''medium''
                else ''low'')
           \<and> (score (hd chunks) = literal_0_05 \<longrightarrow> confidence resp = ''high'')
           \<and> (score (hd chunks) = literal_0_025 \<longrightarrow> confidence resp = ''medium'')
           \<and> (score (hd chunks) = literal_0_01 \<longrightarrow> confidence resp = ''low'')"
proof -
  obtain c cs where cs: "chunks = c # cs" using ne by (cases chunks) auto
  have q: "query sv p user_query w =
      (Inr \<lparr>answer = ans,
            sources = map (\<lambda>chunk. \<lparr>pages = m_page_numbers chunk,
                                      section_name = m_section_title chunk,
                                      relevance_score = score chunk\<rparr>) chunks,
            confidence = confidence_of (score (hd chunks))\<rparr>, w2)"
    using ret gen by (simp add: query_def cs Let_def)
  have c: "confidence_of (score (hd chunks)) =
               (if float_gt (score (hd chunks)) literal_0_03 then ''high''
                else if float_gt (score (hd chunks)) literal_0_02 then ''medium''
                else ''low'')"
    by (simp add: confidence_of_def)
  show ?thesis
    unfolding q using c confidence_of_literals by (intro exI conjI) auto
qed

lemma demo_retrieve:
  "retrieve (demo_services sc) demo_pipeline ''reset'' world0 =
     (Inr [\<lparr>m_chunk_id = ''chunk_0007'', m_content = ''Hold the reset button.'',
             m_page_numbers = [12], m_section_title = Some [], score = sc\<rparr>,
            \<lparr>m_chunk_id = ''chunk_0003'', m_content = ''LED status.'',
             m_page_numbers = [4, 5], m_section_title = Some [], score = literal_0_04\<rparr>],
      \<lparr>svc = 2, trace = [EmbeddingsCreate [''reset''], Search ''reset'' [5] 5]\<rparr>)"
  by (simp add: retrieve_def get_embedding_unfold get_embedding_once_def call_embeddings_def
      hybrid_search_def call_search_def demo_services_def demo_pipeline_def world0_def)

lemma demo_generate:
  "generate (demo_services sc) demo_pipeline q ctx \<lparr>svc = 2, trace = t\<rparr> =
     (Inr ''See page 12.'',
      \<lparr>svc = 3, trace = t @ [ChatCompletionsCreate (''CONTEXT: '' @ ctx) q]\<rparr>)"
  by (simp add: generate_def call_chat_def demo_services_def demo_pipeline_def)

theorem query_confidence_witness:
  "(\<exists>resp w2. query (demo_services literal_0_05) demo_pipeline ''reset'' world0 = (Inr resp, w2)
       \<and> confidence resp = ''high'')
   \<and> (\<exists>resp w2. query (demo_services literal_0_025) demo_pipeline ''reset'' world0 = (Inr resp, w2)
       \<and> confidence resp = ''medium'')
   \<and> (\<exists>resp w2. query (demo_services literal_0_01) demo_pipeline ''reset'' world0 = (Inr resp, w2)
       \<and> confidence resp = ''low'')"
proof -
  have 1: "\<exists>resp w2. query (demo_services literal_0_05) demo_pipeline ''reset'' world0 = (Inr resp, w2)
       \<and> confidence resp = ''high''"
    using query_confidence [OF demo_retrieve _ demo_generate, of literal_0_05] by auto
  have 2: "\<exists>resp w2. query (demo_services literal_0_025) demo_pipeline ''reset'' world0 = (Inr resp, w2)
       \<and> confidence resp = ''medium''"
    using query_confidence [OF demo_retrieve _ demo_generate, of literal_0_025] by auto
  have 3: "\<exists>resp w2. query (demo_services literal_0_01) demo_pipeline ''reset'' world0 = (Inr resp, w2)
       \<and> confidence resp = ''low''"
    using query_confidence [OF demo_retrieve _ demo_generate, of literal_0_01] by auto
  from 1 2 3 show ?thesis by blast
qed

section \<open>Batch embedding\<close>

lemma batch_loop_order:
  "\<lbrakk>\<And>s b. \<exists>data s'. embeddings_create sv s b = (Inr data, s') \<and> list_all2 corr b data;
    0 < batch_size; list_all2 corr (take i texts) all_embeddings\<rbrakk>
   \<Longrightarrow> \<exists>out w'. batch_loop sv texts batch_size i all_embeddings w = (Inr out, w')
                 \<and> list_all2 corr texts out"
proof (induction sv texts batch_size i all_embeddings w rule: batch_loop.induct)
  case (1 sv texts batch_size i all_embeddings w)
  show ?case
  proof (cases "length texts \<le> i")
    case True
    with "1.prems" show ?thesis
      by (subst batch_loop.simps) simp
  next
    case False
    let ?b = "take batch_size (drop i texts)"
    obtain data s' where d: "embeddings_create sv (svc w) ?b = (Inr data, s')"
      and c: "list_all2 corr ?b data"
      using "1.prems"(1) by blast
    let ?w' = "\<lparr>svc = s', trace = trace w @ [EmbeddingsCreate ?b]\<rparr>"
    have call: "call_embeddings sv ?b w = (Inr data, ?w')"
      by (simp add: call_embeddings_def d)
    have inv: "list_all2 corr (take (i + batch_size) texts) (all_embeddings @ data)"
      using "1.prems"(3) c by (simp add: take_add list_all2_appendI)
    have nz: "\<not> (batch_size = 0 \<or> length texts \<le> i)"
      using False "1.prems"(2) by simp
    from "1.IH" [OF nz call [symmetric] refl "1.prems"(1) "1.prems"(2) inv]
    obtain out w'' where
      "batch_loop sv texts batch_size (i + batch_size) (all_embeddings @ data) ?w' = (Inr out, w'')"
      "list_all2 corr texts out"
      by blast
    then show ?thesis
      using nz call by (subst batch_loop.simps) simp
  qed
qed

text \<open>
  C7: for a positive batch size and a provider that answers every request with one
  embedding per input, each corresponding (\<open>corr\<close>) to the input at its position,
  \<open>get_embeddings_batch\<close> returns one embedding per text, the one at position \<open>i\<close>
  corresponding to the text at position \<open>i\<close>, whatever the number of sub-batches.
\<close>

theorem get_embeddings_batch_order:
  assumes pos: "0 < batch_size"
    and provider: "\<And>s b. \<exists>data s'. embeddings_create sv s b = (Inr data, s')
                     \<and> length data = length b \<and> (\<forall>i<length b. corr (b ! i) (data ! i))"
  shows "\<exists>out w'. get_embeddings_batch sv texts batch_size w = (Inr out, w')
           \<and> length out = length texts \<and> (\<forall>i<length texts. corr (texts ! i) (out ! i))"
proof -
  have p: "\<And>s b. \<exists>data s'. embeddings_create sv s b = (Inr data, s') \<and> list_all2 corr b data"
    using provider by (metis list_all2_conv_all_nth)
  have "\<exists>out w'. batch_loop sv texts (nat batch_size) 0 [] w = (Inr out, w')
                 \<and> list_all2 corr texts out"
    by (rule batch_loop_order [OF p]) (use pos in simp_all)
  then show ?thesis
    using pos by (auto simp: get_embeddings_batch_def list_all2_conv_all_nth)
qed

theorem get_embeddings_batch_order_witness:
  "\<exists>out w'. get_embeddings_batch (demo_services literal_0_05)
       [''a'', ''bb'', ''ccc'', ''dddd'', ''eeeee''] 2 world0 = (Inr out, w')
     \<and> length out = 5 \<and> out ! 0 = [1] \<and> out ! 2 = [3] \<and> out ! 4 = [5]"
proof -
  have prov: "\<exists>data s'. embeddings_create (demo_services literal_0_05) s b = (Inr data, s')
        \<and> length data = length b
        \<and> (\<forall>i<length b. (\<lambda>t d. d = [real (length t)]) (b ! i) (data ! i))" for s b
    by (simp add: demo_services_def)
  have pos: "0 < (2::int)" by simp
  show ?thesis
    using get_embeddings_batch_order [of 2 "demo_services literal_0_05" "\<lambda>t d. d = [real (length t)]"
        "[''a'', ''bb'', ''ccc'', ''dddd'', ''eeeee'']" world0, OF pos prov]
    by (auto simp: )
qed

lemma get_embeddings_batch_trace_example:
  "get_embeddings_batch (demo_services literal_0_05)
       [''a'', ''bb'', ''ccc'', ''dddd'', ''eeeee''] 2 world0 =
     (Inr [[1], [2], [3], [4], [5]],
      \<lparr>svc = 3, trace = [EmbeddingsCreate [''a'', ''bb''], EmbeddingsCreate [''ccc'', ''dddd''],
                         EmbeddingsCreate [''eeeee'']]\<rparr>)"
  apply (simp add: get_embeddings_batch_def world0_def)
  apply (subst batch_loop.simps, simp add: call_embeddings_def demo_services_def)
  apply (subst batch_loop.simps, simp add: call_embeddings_def demo_services_def)
  apply (subst batch_loop.simps, simp add: call_embeddings_def demo_services_def)
  apply (subst batch_loop.simps, simp add: call_embeddings_def demo_services_def)
  done

section \<open>Retries\<close>

text \<open>
  C8, at a provider whose first request fails with a transient error and whose second
  succeeds: \<open>get_embeddings_batch\<close> gives up after its single request and returns the
  error, where \<open>get_embedding\<close> sleeps 2 seconds, asks again and returns the embedding.
\<close>

theorem batch_embedding_not_retried:
  "get_embeddings_batch flaky_services [''a''] 16 world0 =
     (Inl (ServiceError ''429''), \<lparr>svc = 1, trace = [EmbeddingsCreate [''a'']]\<rparr>)
   \<and> get_embedding flaky_services ''a'' world0 =
     (Inr [1], \<lparr>svc = 2, trace = [EmbeddingsCreate [''a''], Sleep 2, EmbeddingsCreate [''a'']]\<rparr>)"
proof -
  have b: "get_embeddings_batch flaky_services [''a''] 16 world0 =
     (Inl (ServiceError ''429''), \<lparr>svc = 1, trace = [EmbeddingsCreate [''a'']]\<rparr>)"
    apply (simp add: get_embeddings_batch_def world0_def)
    apply (subst batch_loop.simps, simp add: call_embeddings_def flaky_services_def)
    done
  have s: "get_embedding flaky_services ''a'' world0 =
     (Inr [1], \<lparr>svc = 2, trace = [EmbeddingsCreate [''a''], Sleep 2, EmbeddingsCreate [''a'']]\<rparr>)"
    by (simp add: get_embedding_unfold get_embedding_once_def call_embeddings_def sleep_def
        flaky_services_def world0_def)
  from b s show ?thesis by simp
qed

lemma generate_failure_not_retried:
  assumes "retrieve sv p q w = (Inr chunks, w1)" "chunks \<noteq> []"
    and "chat_create sv (svc w1) (system_prompt p (format_context chunks)) q = (Inl e, s')"
  shows "query sv p q w =
           (Inl e, \<lparr>svc = s', trace = trace w1 @
              [ChatCompletionsCreate (system_prompt p (format_context chunks)) q]\<rparr>)"
  using assms by (simp add: query_def generate_def call_chat_def)

section \<open>Section titles\<close>

lemma uploaded_append: "uploaded (t1 @ t2) = uploaded t1 @ uploaded t2"
  by (induction t1 rule: uploaded.induct) simp_all

lemma upload_loop_uploaded:
  "upload_loop sv documents i w = (r, w') \<Longrightarrow>
     \<exists>k. uploaded (trace w') = uploaded (trace w) @ take k (drop i documents)
         \<and> (r = Inr () \<longrightarrow> length documents \<le> i + k)"
proof (induction sv documents i w rule: upload_loop.induct)
  case (1 sv documents i w)
  show ?case
  proof (cases "length documents \<le> i")
    case True
    with "1.prems" have "r = Inr ()" "w' = w"
      by (simp_all add: upload_loop.simps [of sv documents i w])
    then show ?thesis using True by (intro exI [of _ 0]) simp
  next
    case False
    let ?b = "take 100 (drop i documents)"
    obtain r0 w0 where c: "call_upload sv ?b w = (r0, w0)" by (cases "call_upload sv ?b w")
    have t0: "uploaded (trace w0) = uploaded (trace w) @ ?b"
      using c by (auto simp: call_upload_def uploaded_append split: prod.splits)
    show ?thesis
    proof (cases r0)
      case (Inl e)
      with "1.prems" False c have "r = Inl e" "w' = w0"
        by (simp_all add: upload_loop.simps [of sv documents i w])
      with t0 show ?thesis by (intro exI [of _ 100]) simp
    next
      case (Inr u)
      with "1.prems" False c have rec: "upload_loop sv documents (i + 100) w0 = (r, w')"
        by (simp add: upload_loop.simps [of sv documents i w])
      from "1.IH" [OF False c [symmetric] Inr rec]
      obtain k where k: "uploaded (trace w') = uploaded (trace w0) @ take k (drop (i + 100) documents)"
        and kl: "r = Inr () \<longrightarrow> length documents \<le> i + 100 + k"
        by auto
      have "take (100 + k) (drop i documents) =
          take 100 (drop i documents) @ take k (drop (i + 100) documents)"
        by (subst take_add) (simp add: add.commute)
      then have "uploaded (trace w') = uploaded (trace w) @ take (100 + k) (drop i documents)"
        using k t0 by simp
      with kl show ?thesis by (intro exI [of _ "100 + k"]) auto
    qed
  qed
qed

lemma build_documents_section:
  "\<forall>c \<in> set chunks. section_title c = None \<Longrightarrow>
     d \<in> set (build_documents chunks embeddings document_name timestamp) \<Longrightarrow>
     d_section_title d = []"
  by (auto simp: build_documents_def dest!: set_zip_leftD)

text \<open>
  C10: every chunk \<open>chunk_document\<close> yields has no section title, and whatever
  \<open>index_chunks\<close> hands to the index for these chunks carries the empty string as
  section title; when no upload fails, what it hands over is exactly the documents
  built from the chunks and their embeddings.
\<close>

theorem section_title_never_populated:
  assumes "chunk_document P f = Inr chunks"
    and "index_chunks sv chunks embeddings document_name timestamp w = (r, w')"
  shows "(\<forall>c \<in> set chunks. section_title c = None)
       \<and> (\<exists>docs. uploaded (trace w') = uploaded (trace w) @ docs
              \<and> (\<forall>d \<in> set docs. d_section_title d = [])
              \<and> (r = Inr () \<longrightarrow>
                   docs = build_documents chunks embeddings document_name timestamp))"
proof -
  let ?documents = "build_documents chunks embeddings document_name timestamp"
  have n: "\<forall>c \<in> set chunks. section_title c = None"
    using assms(1)
    by (auto simp: chunk_document_def located_chunks_def Let_def split: sum.splits
        dest: chunk_loop_section)
  from assms(2) obtain k where
    k: "uploaded (trace w') = uploaded (trace w) @ take k (drop 0 ?documents)"
    and kl: "r = Inr () \<longrightarrow> length ?documents \<le> 0 + k"
    unfolding index_chunks_def by (blast dest: upload_loop_uploaded)
  have "\<forall>d \<in> set (take k ?documents). d_section_title d = []"
    using build_documents_section [OF n] by (blast dest: in_set_takeD)
  with n k kl show ?thesis
    by (intro conjI exI [of _ "take k ?documents"]) auto
qed

lemma manual_index_chunks:
  "index_chunks (demo_services literal_0_05)
       [\<lparr>chunk_id = ''chunk_0000'', content = ''Setup guide'', page_numbers = [1],
           section_title = None, chunk_index = 0, total_chunks = 2\<rparr>,
          \<lparr>chunk_id = ''chunk_0001'', content = ''Reset steps'', page_numbers = [3],
           section_title = None, chunk_index = 1, total_chunks = 2\<rparr>]
       [[1], [2]] ''User Guide'' ''2026-01-01T00:00:00+00:00'' world0 =
     (Inr (),
      \<lparr>svc = 1,
       trace = [UploadDocuments
         [\<lparr>d_chunk_id = ''chunk_0000'', d_content = ''Setup guide'', d_content_vector = [1],
           d_page_numbers = [1], d_section_title = [], d_chunk_index = 0,
           d_document_name = ''User Guide'', d_indexed_at = ''2026-01-01T00:00:00+00:00''\<rparr>,
          \<lparr>d_chunk_id = ''chunk_0001'', d_content = ''Reset steps'', d_content_vector = [2],
           d_page_numbers = [3], d_section_title = [], d_chunk_index = 1,
           d_document_name = ''User Guide'', d_indexed_at = ''2026-01-01T00:00:00+00:00''\<rparr>]]\<rparr>)"
  apply (simp add: index_chunks_def build_documents_def)
  apply (subst upload_loop.simps, simp add: call_upload_def demo_services_def world0_def)
  apply (subst upload_loop.simps, simp)
  done

theorem section_title_never_populated_witness:
  "\<exists>chunks w'. chunk_document manual_processor manual_pdf = Inr chunks
     \<and> map section_title chunks = [None, None]
     \<and> index_chunks (demo_services literal_0_05) chunks
          [[1], [2]] ''User Guide'' ''2026-01-01T00:00:00+00:00'' world0 = (Inr (), w')
     \<and> map d_section_title (uploaded (trace w')) = [[], []]"
proof -
  from section_title_never_populated [OF manual_chunks manual_index_chunks]
  have "\<exists>docs. uploaded [UploadDocuments
         [\<lparr>d_chunk_id = ''chunk_0000'', d_content = ''Setup guide'', d_content_vector = [1],
           d_page_numbers = [1], d_section_title = [], d_chunk_index = 0,
           d_document_name = ''User Guide'', d_indexed_at = ''2026-01-01T00:00:00+00:00''\<rparr>,
          \<lparr>d_chunk_id = ''chunk_0001'', d_content = ''Reset steps'', d_content_vector = [2],
           d_page_numbers = [3], d_section_title = [], d_chunk_index = 1,
           d_document_name = ''User Guide'', d_indexed_at = ''2026-01-01T00:00:00+00:00''\<rparr>]]
          = uploaded (trace world0) @ docs \<and> (\<forall>d \<in> set docs. d_section_title d = [])"
    by auto
  then show ?thesis
    using manual_chunks manual_index_chunks by simp
qed

end
